theory Spec2Isabelle
  imports Complex_Main
begin

section \<open>Values, errors and arrays\<close>

text \<open>
  The notebooks compute on numpy arrays of floating-point numbers. An array is modelled as
  a list and a number as a real, so every arithmetic operation is exact. An exception of
  the source is the \<open>Inl\<close> branch of a result; \<open>NanResult\<close> stands for the value
  \<^verbatim>\<open>nan\<close> that \<^verbatim>\<open>np.mean\<close> returns on an empty array, which is no real number.
\<close>

datatype error = IndexError | ValueError | UnboundLocalError | NanResult

definition getitem :: "'a list \<Rightarrow> nat \<Rightarrow> error + 'a" where
  "getitem xs i = (if i < length xs then Inr (xs ! i) else Inl IndexError)"

definition bind_res :: "error + 'a \<Rightarrow> ('a \<Rightarrow> error + 'b) \<Rightarrow> error + 'b" where
  "bind_res m f = (case m of Inl e \<Rightarrow> Inl e | Inr x \<Rightarrow> f x)"

section \<open>The reservoir simulator\<close>

text \<open>
  \<^verbatim>\<open>res_sim(inflow,evap,demand,s_0,s_max,env_min,supply)\<close> allocates the arrays
  \<^verbatim>\<open>s\<close>, \<^verbatim>\<open>spill\<close> and \<^verbatim>\<open>env\<close>, and writes the realised supply into the
  array it was given. The state of its loop is these four arrays.
\<close>

record sim =
  s_arr :: "real list"
  env_arr :: "real list"
  spill_arr :: "real list"
  supply_arr :: "real list"

text \<open>
  The body of the loop at index \<open>t\<close>. The arrays \<^verbatim>\<open>s\<close>, \<^verbatim>\<open>env\<close> and \<^verbatim>\<open>spill\<close>
  have lengths \<open>T + 1\<close>, \<open>T\<close> and \<open>T\<close> with \<open>T = len(inflow)\<close>; the arrays
  \<^verbatim>\<open>evap\<close> and \<^verbatim>\<open>supply\<close> come from the caller, and reading them past their end
  raises \<^verbatim>\<open>IndexError\<close>. Each \<^verbatim>\<open>if\<close> of the source is one \<open>let\<close>, in the source's
  order, and every expression is the one of the source.
\<close>

definition res_sim_step :: "real list \<Rightarrow> real list \<Rightarrow> real \<Rightarrow> nat \<Rightarrow> sim \<Rightarrow> error + sim" where
  "res_sim_step inflow evap s_max t st =
     (if \<not> (t < length inflow \<and> t < length evap \<and> t < length (supply_arr st)
             \<and> t + 1 < length (s_arr st) \<and> t < length (env_arr st) \<and> t < length (spill_arr st))
      then Inl IndexError
      else
        let s = s_arr st;
            env1 = (if s ! t + inflow ! t - evap ! t \<le> 0
                    then (env_arr st)[t := 0] else env_arr st);
            env2 = (if env1 ! t \<ge> s ! t + inflow ! t - evap ! t
                    then env1[t := s ! t + inflow ! t - evap ! t] else env1);
            supply1 = (if s ! t + inflow ! t - evap ! t - env2 ! t \<le> 0
                       then (supply_arr st)[t := 0] else supply_arr st);
            supply2 = (if supply1 ! t \<ge> s ! t + inflow ! t - evap ! t - env2 ! t
                       then supply1[t := s ! t + inflow ! t - evap ! t - env2 ! t] else supply1);
            spill1 = (if s ! t + inflow ! t - evap ! t - env2 ! t - supply2 ! t > s_max
                      then (spill_arr st)[t := s ! t + inflow ! t - evap ! t - env2 ! t - supply2 ! t - s_max]
                      else spill_arr st);
            s1 = s[t + 1 := s ! t + inflow ! t - evap ! t - env2 ! t - spill1 ! t - supply2 ! t]
        in Inr \<lparr>s_arr = s1, env_arr = env2, spill_arr = spill1, supply_arr = supply2\<rparr>)"

text \<open>The loop \<^verbatim>\<open>for t in np.arange(T)\<close>, stopping at the first exception.\<close>

fun res_sim_loop :: "real list \<Rightarrow> real list \<Rightarrow> real \<Rightarrow> nat list \<Rightarrow> sim \<Rightarrow> error + sim" where
  "res_sim_loop inflow evap s_max [] st = Inr st"
| "res_sim_loop inflow evap s_max (t # ts) st =
     (case res_sim_step inflow evap s_max t st of
        Inl e \<Rightarrow> Inl e
      | Inr st' \<Rightarrow> res_sim_loop inflow evap s_max ts st')"

definition res_sim ::
  "real list \<Rightarrow> real list \<Rightarrow> real list \<Rightarrow> real \<Rightarrow> real \<Rightarrow> real \<Rightarrow> real list \<Rightarrow> error + sim" where
  "res_sim inflow evap demand s_0 s_max env_min supply =
     (let T = length inflow;
          s = replicate (T + 1) 0;
          spill = replicate T 0;
          env = map (\<lambda>z. z + env_min) (replicate T 0);
          s = s[0 := s_0]
      in res_sim_loop inflow evap s_max [0..<T]
           \<lparr>s_arr = s, env_arr = env, spill_arr = spill, supply_arr = supply\<rparr>)"

section \<open>The simulator in binary64 arithmetic\<close>

text \<open>
  numpy computes \<^verbatim>\<open>res_sim\<close> in IEEE 754 binary64: every \<^verbatim>\<open>+\<close> and \<^verbatim>\<open>-\<close> returns
  the exact result rounded to the nearest number with a significand of 53 bits, a tie going
  to the even significand. \<open>f64 x\<close> is that rounding of the real \<open>x\<close>:
  \<open>binade\<close> finds the exponent \<open>e\<close> with \<open>2 ^ e \<le> \<bar>x\<bar> < 2 ^ (e + 1)\<close> by
  halving or doubling, at most 2200 times, which covers every magnitude of binary64;
  the spacing of the numbers around \<open>x\<close> is \<open>2 ^ (e - 52)\<close>, and \<open>2 ^ (- 1074)\<close> for
  the subnormal numbers. Overflow to infinity (beyond \<open>2 ^ 1024\<close>) is not modelled.
\<close>

definition round_half_even :: "real \<Rightarrow> int" where
  "round_half_even x =
     (let n = \<lfloor>x\<rfloor>
      in if x - of_int n < 1 / 2 then n
         else if x - of_int n > 1 / 2 then n + 1
         else if even n then n else n + 1)"

fun binade :: "nat \<Rightarrow> real \<Rightarrow> int \<Rightarrow> int" where
  "binade 0 x e = e"
| "binade (Suc k) x e =
     (if x \<ge> 2 then binade k (x / 2) (e + 1)
      else if x < 1 then binade k (x * 2) (e - 1)
      else e)"

definition pow2 :: "int \<Rightarrow> real" where
  "pow2 k = (if k \<ge> 0 then 2 ^ nat k else 1 / 2 ^ nat (- k))"

definition f64 :: "real \<Rightarrow> real" where
  "f64 x =
     (if x = 0 then 0
      else let q = max (binade 2200 \<bar>x\<bar> 0 - 52) (- 1074)
           in of_int (round_half_even (x / pow2 q)) * pow2 q)"

definition fadd :: "real \<Rightarrow> real \<Rightarrow> real" where
  "fadd x y = f64 (x + y)"

definition fsub :: "real \<Rightarrow> real \<Rightarrow> real" where
  "fsub x y = f64 (x - y)"

text \<open>
  The body of the loop of \<^verbatim>\<open>res_sim\<close> once more, each \<^verbatim>\<open>+\<close> and \<^verbatim>\<open>-\<close> of the
  source being \<open>fadd\<close> and \<open>fsub\<close>, associated to the left as Python evaluates them:
  \<^verbatim>\<open>s[t]+inflow[t]-evap[t]-env[t]\<close> is \<open>fsub (fsub (fadd s inflow) evap) env\<close>. The
  comparisons are exact.
\<close>

definition res_sim_step_f64 :: "real list \<Rightarrow> real list \<Rightarrow> real \<Rightarrow> nat \<Rightarrow> sim \<Rightarrow> error + sim" where
  "res_sim_step_f64 inflow evap s_max t st =
     (if \<not> (t < length inflow \<and> t < length evap \<and> t < length (supply_arr st)
             \<and> t + 1 < length (s_arr st) \<and> t < length (env_arr st) \<and> t < length (spill_arr st))
      then Inl IndexError
      else
        let s = s_arr st;
            env1 = (if fsub (fadd (s ! t) (inflow ! t)) (evap ! t) \<le> 0
                    then (env_arr st)[t := 0] else env_arr st);
            env2 = (if env1 ! t \<ge> fsub (fadd (s ! t) (inflow ! t)) (evap ! t)
                    then env1[t := fsub (fadd (s ! t) (inflow ! t)) (evap ! t)] else env1);
            supply1 = (if fsub (fsub (fadd (s ! t) (inflow ! t)) (evap ! t)) (env2 ! t) \<le> 0
                       then (supply_arr st)[t := 0] else supply_arr st);
            supply2 = (if supply1 ! t \<ge> fsub (fsub (fadd (s ! t) (inflow ! t)) (evap ! t)) (env2 ! t)
                       then supply1[t := fsub (fsub (fadd (s ! t) (inflow ! t)) (evap ! t)) (env2 ! t)]
                       else supply1);
            spill1 = (if fsub (fsub (fsub (fadd (s ! t) (inflow ! t)) (evap ! t)) (env2 ! t))
                              (supply2 ! t) > s_max
                      then (spill_arr st)[t := fsub (fsub (fsub (fsub (fadd (s ! t) (inflow ! t)) (evap ! t))
                                                             (env2 ! t)) (supply2 ! t)) s_max]
                      else spill_arr st);
            s1 = s[t + 1 := fsub (fsub (fsub (fsub (fadd (s ! t) (inflow ! t)) (evap ! t)) (env2 ! t))
                                   (spill1 ! t)) (supply2 ! t)]
        in Inr \<lparr>s_arr = s1, env_arr = env2, spill_arr = spill1, supply_arr = supply2\<rparr>)"

fun res_sim_loop_f64 :: "real list \<Rightarrow> real list \<Rightarrow> real \<Rightarrow> nat list \<Rightarrow> sim \<Rightarrow> error + sim" where
  "res_sim_loop_f64 inflow evap s_max [] st = Inr st"
| "res_sim_loop_f64 inflow evap s_max (t # ts) st =
     (case res_sim_step_f64 inflow evap s_max t st of
        Inl e \<Rightarrow> Inl e
      | Inr st' \<Rightarrow> res_sim_loop_f64 inflow evap s_max ts st')"

text \<open>
  \<^verbatim>\<open>np.zeros(T) + env_min\<close> is one rounded addition for each entry, and
  \<^verbatim>\<open>s[0] = s_0\<close> stores \<^verbatim>\<open>s_0\<close> as a binary64 number.
\<close>

definition res_sim_f64 ::
  "real list \<Rightarrow> real list \<Rightarrow> real list \<Rightarrow> real \<Rightarrow> real \<Rightarrow> real \<Rightarrow> real list \<Rightarrow> error + sim" where
  "res_sim_f64 inflow evap demand s_0 s_max env_min supply =
     (let T = length inflow;
          s = replicate (T + 1) 0;
          spill = replicate T 0;
          env = map (\<lambda>z. fadd z env_min) (replicate T 0);
          s = s[0 := f64 s_0]
      in res_sim_loop_f64 inflow evap s_max [0..<T]
           \<lparr>s_arr = s, env_arr = env, spill_arr = spill, supply_arr = supply\<rparr>)"

section \<open>The simulator on a store of arrays\<close>

text \<open>
  Python passes arrays by reference, and \<^verbatim>\<open>res_sim\<close> assigns to
  \<^verbatim>\<open>supply[t]\<close>, an array of its caller. To say what the caller sees afterwards, the
  arrays live in a store: a reference is a number, every reference holds an array, and the
  references from \<open>fresh\<close> on are not in use yet.
\<close>

type_synonym ref = nat

record store =
  cells :: "ref \<Rightarrow> real list"
  fresh :: ref

definition alloc :: "real list \<Rightarrow> store \<Rightarrow> ref \<times> store" where
  "alloc xs h = (fresh h, h\<lparr>cells := (cells h)(fresh h := xs), fresh := fresh h + 1\<rparr>)"

definition rd :: "store \<Rightarrow> ref \<Rightarrow> nat \<Rightarrow> real" where
  "rd h r i = cells h r ! i"

definition wr :: "store \<Rightarrow> ref \<Rightarrow> nat \<Rightarrow> real \<Rightarrow> store" where
  "wr h r i v = h\<lparr>cells := (cells h)(r := (cells h r)[i := v])\<rparr>"

text \<open>The arrays \<^verbatim>\<open>res_sim\<close> works on: two it only reads, three it allocates, one it is given.\<close>

record sim_refs =
  inflow_ref :: ref
  evap_ref :: ref
  s_ref :: ref
  env_ref :: ref
  spill_ref :: ref
  supply_ref :: ref

text \<open>
  The body of the loop, every read and write going through the store, so that a write to
  \<^verbatim>\<open>supply[t]\<close> is seen by a later read of any array that is the same object.
\<close>

definition res_sim_step_store :: "sim_refs \<Rightarrow> real \<Rightarrow> nat \<Rightarrow> store \<Rightarrow> error + store" where
  "res_sim_step_store rs s_max t h =
     (let s = s_ref rs; inflow = inflow_ref rs; evap = evap_ref rs;
          env = env_ref rs; spill = spill_ref rs; supply = supply_ref rs
      in if \<not> (t < length (cells h inflow) \<and> t < length (cells h evap)
                 \<and> t < length (cells h supply) \<and> t + 1 < length (cells h s)
                 \<and> t < length (cells h env) \<and> t < length (cells h spill))
         then Inl IndexError
         else
           let h1 = (if rd h s t + rd h inflow t - rd h evap t \<le> 0
                     then wr h env t 0 else h);
               h2 = (if rd h1 env t \<ge> rd h1 s t + rd h1 inflow t - rd h1 evap t
                     then wr h1 env t (rd h1 s t + rd h1 inflow t - rd h1 evap t) else h1);
               h3 = (if rd h2 s t + rd h2 inflow t - rd h2 evap t - rd h2 env t \<le> 0
                     then wr h2 supply t 0 else h2);
               h4 = (if rd h3 supply t \<ge> rd h3 s t + rd h3 inflow t - rd h3 evap t - rd h3 env t
                     then wr h3 supply t (rd h3 s t + rd h3 inflow t - rd h3 evap t - rd h3 env t)
                     else h3);
               h5 = (if rd h4 s t + rd h4 inflow t - rd h4 evap t - rd h4 env t - rd h4 supply t > s_max
                     then wr h4 spill t
                            (rd h4 s t + rd h4 inflow t - rd h4 evap t - rd h4 env t - rd h4 supply t - s_max)
                     else h4)
           in Inr (wr h5 s (t + 1)
                     (rd h5 s t + rd h5 inflow t - rd h5 evap t - rd h5 env t - rd h5 spill t
                      - rd h5 supply t)))"

fun res_sim_loop_store :: "sim_refs \<Rightarrow> real \<Rightarrow> nat list \<Rightarrow> store \<Rightarrow> error + store" where
  "res_sim_loop_store rs s_max [] h = Inr h"
| "res_sim_loop_store rs s_max (t # ts) h =
     (case res_sim_step_store rs s_max t h of
        Inl e \<Rightarrow> Inl e
      | Inr h' \<Rightarrow> res_sim_loop_store rs s_max ts h')"

text \<open>
  \<^verbatim>\<open>res_sim\<close> called with references to its array arguments. It returns the store it
  leaves and the references \<^verbatim>\<open>s,env,spill,supply\<close>.
\<close>

definition res_sim_store ::
  "store \<Rightarrow> ref \<Rightarrow> ref \<Rightarrow> ref \<Rightarrow> real \<Rightarrow> real \<Rightarrow> real \<Rightarrow> ref \<Rightarrow>
   error + (store \<times> ref \<times> ref \<times> ref \<times> ref)" where
  "res_sim_store h inflow evap demand s_0 s_max env_min supply =
     (let T = length (cells h inflow);
          (s, h) = alloc (replicate (T + 1) 0) h;
          (spill, h) = alloc (replicate T 0) h;
          (env, h) = alloc (map (\<lambda>z. z + env_min) (replicate T 0)) h;
          h = wr h s 0 s_0;
          rs = \<lparr>inflow_ref = inflow, evap_ref = evap, s_ref = s, env_ref = env,
                spill_ref = spill, supply_ref = supply\<rparr>
      in case res_sim_loop_store rs s_max [0..<T] h of
           Inl e \<Rightarrow> Inl e
         | Inr h' \<Rightarrow> Inr (h', s, env, spill, supply))"

section \<open>Objective functions\<close>

text \<open>
  \<^verbatim>\<open>np.mean\<close> of a one-dimensional array; on an empty array numpy returns
  \<^verbatim>\<open>nan\<close> (HOL's \<open>0 / 0\<close> would be \<open>0\<close>).
\<close>

definition np_mean :: "real list \<Rightarrow> error + real" where
  "np_mean xs = (if xs = [] then Inl NanResult else Inr (sum_list xs / real (length xs)))"

text \<open>
  An elementwise operation on two one-dimensional arrays pairs their entries: arrays of
  equal length entry by entry, an array of length one with every entry of the other
  (broadcasting), and anything else raises \<^verbatim>\<open>ValueError\<close>.
\<close>

definition broadcast2 :: "real list \<Rightarrow> real list \<Rightarrow> error + (real \<times> real) list" where
  "broadcast2 xs ys =
     (if length xs = length ys then Inr (zip xs ys)
      else if length xs = 1 then Inr (zip (replicate (length ys) (xs ! 0)) ys)
      else if length ys = 1 then Inr (zip xs (replicate (length xs) (ys ! 0)))
      else Inl ValueError)"

text \<open>
  \<^verbatim>\<open>reliability\<close> of the optimisation notebook: the loop fills \<^verbatim>\<open>x\<close> with
  0 where the supply meets the demand and 1 elsewhere, and the result is the mean of
  \<^verbatim>\<open>x\<close>.
\<close>

fun reliability_loop :: "real list \<Rightarrow> real list \<Rightarrow> nat list \<Rightarrow> real list \<Rightarrow> error + real list" where
  "reliability_loop supply demand [] x = Inr x"
| "reliability_loop supply demand (t # ts) x =
     (if \<not> (t < length supply \<and> t < length demand \<and> t < length x) then Inl IndexError
      else if supply ! t \<ge> demand ! t
      then reliability_loop supply demand ts (x[t := 0])
      else reliability_loop supply demand ts (x[t := 1]))"

definition reliability :: "real list \<Rightarrow> real list \<Rightarrow> error + real" where
  "reliability supply demand =
     (let T = length supply;
          x = replicate T 0
      in bind_res (reliability_loop supply demand [0..<T] x) np_mean)"

text \<open>
  \<^verbatim>\<open>SD_func\<close> of the optimisation notebook computes
  \<^verbatim>\<open>sd[t] = np.max(demand[t] - supply[t], 0)**2\<close> in a loop. The second positional
  argument of \<^verbatim>\<open>np.max\<close> is the axis along which the maximum is taken, not a second
  value: on a scalar, axis 0 is accepted and the maximum is the scalar itself.
\<close>

definition np_max :: "real \<Rightarrow> nat \<Rightarrow> real" where
  "np_max a axis = a"

fun SD_func_loop_body :: "real list \<Rightarrow> real list \<Rightarrow> nat list \<Rightarrow> real list \<Rightarrow> error + real list" where
  "SD_func_loop_body supply demand [] sd = Inr sd"
| "SD_func_loop_body supply demand (t # ts) sd =
     (if \<not> (t < length supply \<and> t < length demand \<and> t < length sd) then Inl IndexError
      else SD_func_loop_body supply demand ts (sd[t := (np_max (demand ! t - supply ! t) 0)\<^sup>2]))"

definition SD_func_loop :: "real list \<Rightarrow> real list \<Rightarrow> error + real" where
  "SD_func_loop supply demand =
     (let T = length demand;
          sd = replicate T 0
      in bind_res (SD_func_loop_body supply demand [0..<T] sd) np_mean)"

text \<open>
  \<^verbatim>\<open>SD_func\<close> and \<^verbatim>\<open>MSV_func\<close> of the genetic-algorithm notebook are vectorised:
  \<^verbatim>\<open>np.maximum(demand - supply, 0) ** 2\<close> is the elementwise maximum with 0.
\<close>

definition SD_func_vec :: "real list \<Rightarrow> real list \<Rightarrow> error + real" where
  "SD_func_vec supply demand =
     bind_res (broadcast2 demand supply)
       (\<lambda>ps. np_mean (map (\<lambda>(d, u). (max (d - u) 0)\<^sup>2) ps))"

definition MSV_func :: "real list \<Rightarrow> real \<Rightarrow> error + real" where
  "MSV_func s s_min = np_mean (map (\<lambda>x. \<bar>max (s_min - x) 0\<bar>) s)"

section \<open>The notebooks' global variables\<close>

text \<open>
  \<^verbatim>\<open>auto_optim\<close>, \<^verbatim>\<open>fit_func\<close> and \<^verbatim>\<open>gen_opt\<close> read the forecasts and the
  reservoir's constants from global variables; the model passes them as a record.
\<close>

record globals =
  g_inflow :: "real list"
  g_evap :: "real list"
  g_demand :: "real list"
  g_s_0 :: real
  g_s_max :: real
  g_s_min :: real
  g_env_min :: real
  g_pop_size :: nat

text \<open>The values both notebooks assign, with the population size as a parameter.\<close>

definition notebook_globals :: "nat \<Rightarrow> globals" where
  "notebook_globals n =
     \<lparr>g_inflow = [15, 17, 19, 11, 9, 4, 3, 8],
      g_evap = [1, 1, 2, 2, 2, 2, 2, 3],
      g_demand = [13, 13, 17, 18, 20, 22, 25, 26],
      g_s_0 = 80, g_s_max = 150, g_s_min = 30, g_env_min = 2, g_pop_size = n\<rparr>"

text \<open>
  \<^verbatim>\<open>auto_optim(vars)\<close> of the optimisation notebook (its first version): simulate the
  release schedule and return \<^verbatim>\<open>[REL, SD]\<close>.
\<close>

definition auto_optim :: "globals \<Rightarrow> real list \<Rightarrow> error + real list" where
  "auto_optim g vars =
     bind_res (res_sim (g_inflow g) (g_evap g) (g_demand g) (g_s_0 g) (g_s_max g) (g_env_min g) vars)
       (\<lambda>r. bind_res (reliability (supply_arr r) (g_demand g))
         (\<lambda>REL. bind_res (SD_func_loop (supply_arr r) (g_demand g))
           (\<lambda>SD. Inr [REL, SD])))"

section \<open>The genetic optimiser of the draft notebook\<close>

text \<open>\<^verbatim>\<open>np.all(obj1 <= obj2) and np.any(obj1 < obj2)\<close>.\<close>

definition dominates :: "real list \<Rightarrow> real list \<Rightarrow> error + bool" where
  "dominates obj1 obj2 =
     bind_res (broadcast2 obj1 obj2)
       (\<lambda>ps. Inr (list_all (\<lambda>(a, b). a \<le> b) ps \<and> list_ex (\<lambda>(a, b). a < b) ps))"

text \<open>
  \<^verbatim>\<open>parents_selection\<close> keeps two tables, indexed by candidate: how many candidates
  dominate it, and which candidates it dominates.
\<close>

record ranking =
  domination_count :: "nat list"
  dominated_solutions :: "nat list list"

text \<open>The body of the inner loop, for the pair \<open>i < j\<close>.\<close>

definition compare_pair :: "real list list \<Rightarrow> nat \<Rightarrow> nat \<Rightarrow> ranking \<Rightarrow> error + ranking" where
  "compare_pair objectives i j rk =
     (if \<not> (i < length objectives \<and> j < length objectives
             \<and> i < length (domination_count rk) \<and> j < length (domination_count rk)
             \<and> i < length (dominated_solutions rk) \<and> j < length (dominated_solutions rk))
      then Inl IndexError
      else bind_res (dominates (objectives ! i) (objectives ! j))
        (\<lambda>d1. if d1
           then Inr \<lparr>domination_count = (domination_count rk)[j := domination_count rk ! j + 1],
                     dominated_solutions = (dominated_solutions rk)[i := dominated_solutions rk ! i @ [j]]\<rparr>
           else bind_res (dominates (objectives ! j) (objectives ! i))
             (\<lambda>d2. if d2
                then Inr \<lparr>domination_count = (domination_count rk)[i := domination_count rk ! i + 1],
                          dominated_solutions = (dominated_solutions rk)[j := dominated_solutions rk ! j @ [i]]\<rparr>
                else Inr rk)))"

fun inner_loop :: "real list list \<Rightarrow> nat \<Rightarrow> nat list \<Rightarrow> ranking \<Rightarrow> error + ranking" where
  "inner_loop objectives i [] rk = Inr rk"
| "inner_loop objectives i (j # js) rk =
     (case compare_pair objectives i j rk of
        Inl e \<Rightarrow> Inl e
      | Inr rk' \<Rightarrow> inner_loop objectives i js rk')"

fun outer_loop :: "real list list \<Rightarrow> nat list \<Rightarrow> ranking \<Rightarrow> error + ranking" where
  "outer_loop objectives [] rk = Inr rk"
| "outer_loop objectives (i # is) rk =
     (case inner_loop objectives i [i + 1..<length objectives] rk of
        Inl e \<Rightarrow> Inl e
      | Inr rk' \<Rightarrow> outer_loop objectives is rk')"

text \<open>The two tables after the nested iteration of \<^verbatim>\<open>parents_selection\<close>.\<close>

definition rank_population :: "real list list \<Rightarrow> error + ranking" where
  "rank_population objectives =
     outer_loop objectives [0..<length objectives]
       \<lparr>domination_count = replicate (length objectives) 0,
        dominated_solutions = replicate (length objectives) []\<rparr>"

text \<open>\<^verbatim>\<open>np.where(domination_count == v)[0]\<close>: the indices holding \<open>v\<close>, ascending.\<close>

definition np_where_eq :: "nat list \<Rightarrow> nat \<Rightarrow> nat list" where
  "np_where_eq xs v = filter (\<lambda>i. xs ! i = v) [0..<length xs]"

text \<open>\<^verbatim>\<open>population[np.where(domination_count == v)[0][0]]\<close>.\<close>

definition pick_parent :: "nat list \<Rightarrow> nat \<Rightarrow> real list list \<Rightarrow> error + real list" where
  "pick_parent counts v population =
     bind_res (getitem (np_where_eq counts v) 0) (getitem population)"

definition parents_selection ::
  "real list list \<Rightarrow> real list list \<Rightarrow> error + (real list \<times> real list)" where
  "parents_selection objectives population =
     bind_res (rank_population objectives)
       (\<lambda>rk. bind_res (pick_parent (domination_count rk) 0 population)
         (\<lambda>parent_1. bind_res (pick_parent (domination_count rk) 1 population)
           (\<lambda>parent_2. Inr (parent_1, parent_2))))"

text \<open>
  \<^verbatim>\<open>crossover\<close>: the two parents, then for each ratio of
  \<^verbatim>\<open>np.arange(0.25,1,0.25)\<close> the two children spliced at
  \<^verbatim>\<open>int(num_genes * crossover_ratio)\<close>. \<^verbatim>\<open>np.row_stack\<close> raises
  \<^verbatim>\<open>ValueError\<close> on rows of different lengths.
\<close>

fun crossover_loop :: "real list \<Rightarrow> real list \<Rightarrow> real list \<Rightarrow> real list list \<Rightarrow> real list list" where
  "crossover_loop parent_1 parent_2 [] new_population = new_population"
| "crossover_loop parent_1 parent_2 (crossover_ratio # ratios) new_population =
     (let crossover_point = nat \<lfloor>real (length parent_1) * crossover_ratio\<rfloor>;
          child_1 = take crossover_point parent_1 @ drop crossover_point parent_2;
          child_2 = take crossover_point parent_2 @ drop crossover_point parent_1
      in crossover_loop parent_1 parent_2 ratios (new_population @ [child_1, child_2]))"

definition crossover :: "real list \<Rightarrow> real list \<Rightarrow> error + real list list" where
  "crossover parent_1 parent_2 =
     (let crossover_ratios = [1 / 4, 1 / 2, 3 / 4]
      in if length parent_1 \<noteq> length parent_2 then Inl ValueError
         else Inr (crossover_loop parent_1 parent_2 crossover_ratios [parent_1, parent_2]))"

text \<open>
  \<^verbatim>\<open>fit_func(pop_size,population)\<close>: candidate \<open>i\<close> is simulated with the supply
  \<^verbatim>\<open>population[i]*demand\<close>, a new array, and row \<open>i\<close> of \<^verbatim>\<open>objectives\<close>
  receives \<^verbatim>\<open>MSV_func(s[:-1], s_min)\<close> and \<^verbatim>\<open>SD_func(supply, demand)\<close>.
\<close>

definition fit_func_body :: "globals \<Rightarrow> real list list \<Rightarrow> nat \<Rightarrow> real list list \<Rightarrow> error + real list list" where
  "fit_func_body g population i objectives =
     bind_res (getitem population i)
       (\<lambda>genes. bind_res (broadcast2 genes (g_demand g))
         (\<lambda>ps. bind_res (res_sim (g_inflow g) (g_evap g) (g_demand g) (g_s_0 g) (g_s_max g)
                            (g_env_min g) (map (\<lambda>(x, d). x * d) ps))
           (\<lambda>r. bind_res (MSV_func (butlast (s_arr r)) (g_s_min g))
             (\<lambda>msv. bind_res (SD_func_vec (supply_arr r) (g_demand g))
               (\<lambda>sd. if i < length objectives
                     then (let objectives1 = objectives[i := (objectives ! i)[0 := msv]]
                           in Inr (objectives1[i := (objectives1 ! i)[1 := sd]]))
                     else Inl IndexError)))))"

fun fit_func_loop :: "globals \<Rightarrow> real list list \<Rightarrow> nat list \<Rightarrow> real list list \<Rightarrow> error + real list list" where
  "fit_func_loop g population [] objectives = Inr objectives"
| "fit_func_loop g population (i # is) objectives =
     (case fit_func_body g population i objectives of
        Inl e \<Rightarrow> Inl e
      | Inr objectives' \<Rightarrow> fit_func_loop g population is objectives')"

definition fit_func :: "globals \<Rightarrow> nat \<Rightarrow> real list list \<Rightarrow> error + real list list" where
  "fit_func g pop_size population =
     fit_func_loop g population [0..<pop_size] (replicate pop_size [0, 0])"

text \<open>
  \<^verbatim>\<open>gen_opt(max_generations)\<close>. The random draw
  \<^verbatim>\<open>np.random.uniform(0, 1, (pop_size, num_weeks))\<close> is the argument
  \<open>initial_population\<close>. The variable \<^verbatim>\<open>objectives\<close> is bound by the first
  generation only, so returning it after no generation raises.
\<close>

fun gen_opt_loop ::
  "globals \<Rightarrow> nat list \<Rightarrow> real list list \<times> real list list option \<Rightarrow>
   error + (real list list \<times> real list list option)" where
  "gen_opt_loop g [] st = Inr st"
| "gen_opt_loop g (gen # gens) (population, previous) =
     (case fit_func g (g_pop_size g) population of
        Inl e \<Rightarrow> Inl e
      | Inr objectives \<Rightarrow>
          (case parents_selection objectives population of
             Inl e \<Rightarrow> Inl e
           | Inr (parent_1, parent_2) \<Rightarrow>
               (case crossover parent_1 parent_2 of
                  Inl e \<Rightarrow> Inl e
                | Inr population' \<Rightarrow> gen_opt_loop g gens (population', Some objectives))))"

definition gen_opt ::
  "globals \<Rightarrow> real list list \<Rightarrow> nat \<Rightarrow> error + (real list list \<times> real list list)" where
  "gen_opt g initial_population max_generations =
     (case gen_opt_loop g [0..<max_generations] (initial_population, None) of
        Inl e \<Rightarrow> Inl e
      | Inr (population, None) \<Rightarrow> Inl UnboundLocalError
      | Inr (population, Some objectives) \<Rightarrow> Inr (population, objectives))"

section \<open>The optimiser of the checkpoint notebook\<close>

text \<open>
  The checkpoint of the optimisation notebook holds a second optimiser, called as
  \<^verbatim>\<open>multiobjective_optimization(inflow, evap, demand, s_0, s_max, s_min, env_min,
  pop_size, max_generations)\<close>, with the functions \<^verbatim>\<open>non_dominated_sort\<close>,
  \<^verbatim>\<open>crowding_distance\<close>, \<^verbatim>\<open>crossover(population, crossover_prob=0.9)\<close> and
  \<^verbatim>\<open>mutation(population, mutation_prob=0.1)\<close>. The cell with the body of the optimiser
  has lost the line of its \<^verbatim>\<open>def\<close>; the parameters are those of the call, and the
  model reads them from the record of the global variables, which hold the same values.

  Random numbers are read from a stream \<open>rng\<close> at a position that every draw advances:
  \<^verbatim>\<open>np.random.rand()\<close> is the next number of the stream, in \<open>[0, 1)\<close>, and
  \<^verbatim>\<open>np.random.uniform(0, s_max)\<close> is \<open>0 + (s_max - 0)\<close> times the next number.
\<close>

type_synonym rng = "nat \<Rightarrow> real"

text \<open>
  \<^verbatim>\<open>crossover(population, crossover_prob)\<close>, here \<open>crossover_uniform\<close> since the
  draft notebook has a \<^verbatim>\<open>crossover\<close> of two parents: for every second row \<open>i\<close>,
  with probability \<^verbatim>\<open>crossover_prob\<close>, each gene of the rows \<open>i\<close> and \<open>i + 1\<close>
  is swapped with probability one half. The state of the iteration is the new population and
  the position in the stream.
\<close>

fun crossover_genes ::
  "rng \<Rightarrow> nat \<Rightarrow> nat list \<Rightarrow> real list list \<times> nat \<Rightarrow> error + (real list list \<times> nat)" where
  "crossover_genes rng i [] st = Inr st"
| "crossover_genes rng i (j # js) (new_population, pos) =
     (if rng pos < 1 / 2
      then (if i + 1 < length new_population \<and> j < length (new_population ! i)
               \<and> j < length (new_population ! (i + 1))
            then crossover_genes rng i js
                   (new_population
                      [i := (new_population ! i)[j := new_population ! (i + 1) ! j],
                       i + 1 := (new_population ! (i + 1))[j := new_population ! i ! j]],
                    pos + 1)
            else Inl IndexError)
      else crossover_genes rng i js (new_population, pos + 1))"

fun crossover_pairs ::
  "rng \<Rightarrow> real \<Rightarrow> real list list \<Rightarrow> nat list \<Rightarrow> real list list \<times> nat \<Rightarrow>
   error + (real list list \<times> nat)" where
  "crossover_pairs rng crossover_prob population [] st = Inr st"
| "crossover_pairs rng crossover_prob population (i # is) (new_population, pos) =
     (if rng pos < crossover_prob
      then (if i < length population
            then (case crossover_genes rng i [0..<length (population ! i)] (new_population, pos + 1) of
                    Inl e \<Rightarrow> Inl e
                  | Inr st' \<Rightarrow> crossover_pairs rng crossover_prob population is st')
            else Inl IndexError)
      else crossover_pairs rng crossover_prob population is (new_population, pos + 1))"

definition crossover_uniform ::
  "rng \<Rightarrow> real \<Rightarrow> real list list \<Rightarrow> nat \<Rightarrow> error + (real list list \<times> nat)" where
  "crossover_uniform rng crossover_prob population pos =
     crossover_pairs rng crossover_prob population (filter even [0..<length population])
       (population, pos)"

text \<open>
  \<^verbatim>\<open>mutation\<close>: each gene is replaced, with probability \<^verbatim>\<open>mutation_prob\<close>, by
  \<^verbatim>\<open>np.random.uniform(0, s_max)\<close>, where \<^verbatim>\<open>s_max\<close> is the global variable.
\<close>

fun mutation_genes ::
  "rng \<Rightarrow> real \<Rightarrow> real \<Rightarrow> nat \<Rightarrow> nat list \<Rightarrow> real list list \<times> nat \<Rightarrow>
   error + (real list list \<times> nat)" where
  "mutation_genes rng mutation_prob s_max i [] st = Inr st"
| "mutation_genes rng mutation_prob s_max i (j # js) (new_population, pos) =
     (if rng pos < mutation_prob
      then (if i < length new_population \<and> j < length (new_population ! i)
            then mutation_genes rng mutation_prob s_max i js
                   (new_population[i := (new_population ! i)[j := 0 + (s_max - 0) * rng (pos + 1)]],
                    pos + 2)
            else Inl IndexError)
      else mutation_genes rng mutation_prob s_max i js (new_population, pos + 1))"

fun mutation_rows ::
  "rng \<Rightarrow> real \<Rightarrow> real \<Rightarrow> real list list \<Rightarrow> nat list \<Rightarrow> real list list \<times> nat \<Rightarrow>
   error + (real list list \<times> nat)" where
  "mutation_rows rng mutation_prob s_max population [] st = Inr st"
| "mutation_rows rng mutation_prob s_max population (i # is) st =
     (if i < length population
      then (case mutation_genes rng mutation_prob s_max i [0..<length (population ! i)] st of
              Inl e \<Rightarrow> Inl e
            | Inr st' \<Rightarrow> mutation_rows rng mutation_prob s_max population is st')
      else Inl IndexError)"

definition mutation ::
  "rng \<Rightarrow> real \<Rightarrow> real \<Rightarrow> real list list \<Rightarrow> nat \<Rightarrow> error + (real list list \<times> nat)" where
  "mutation rng mutation_prob s_max population pos =
     mutation_rows rng mutation_prob s_max population [0..<length population] (population, pos)"


text \<open>
  \<^verbatim>\<open>non_dominated_sort\<close> starts with the nested iteration of \<^verbatim>\<open>parents_selection\<close>
  (\<open>rank_population\<close>) and then peels the fronts off: the current front is recorded,
  every candidate a member of it dominates loses one from its count, and the candidates
  whose count reaches 0 form the next front. The counts are numpy floats and may go below
  0, so they are integers here.
\<close>

fun release_dominated :: "nat list \<Rightarrow> int list \<times> nat list \<Rightarrow> error + (int list \<times> nat list)" where
  "release_dominated [] st = Inr st"
| "release_dominated (j # js) (counts, next_front) =
     (if j < length counts
      then (let counts' = counts[j := counts ! j - 1]
            in release_dominated js
                 (counts',
                  if counts' ! j = 0 then next_front @ [j] else next_front))
      else Inl IndexError)"

fun scan_front ::
  "nat list list \<Rightarrow> nat list \<Rightarrow> int list \<times> nat list \<Rightarrow> error + (int list \<times> nat list)" where
  "scan_front dominated [] st = Inr st"
| "scan_front dominated (i # is) st =
     (if i < length dominated
      then (case release_dominated (dominated ! i) st of
              Inl e \<Rightarrow> Inl e
            | Inr st' \<Rightarrow> scan_front dominated is st')
      else Inl IndexError)"

text \<open>The sum of the positive counts: it bounds the work the peeling has left.\<close>

definition pending :: "int list \<Rightarrow> nat" where
  "pending counts = sum_list (map nat counts)"

function peel_fronts ::
  "nat list list \<Rightarrow> int list \<Rightarrow> nat list \<Rightarrow> nat list list \<Rightarrow> error + nat list list" where
  "peel_fronts dominated counts current_front fronts =
     (if current_front = [] then Inr fronts
      else (case scan_front dominated current_front (counts, []) of
              Inl e \<Rightarrow> Inl e
            | Inr (counts', next_front) \<Rightarrow>
                peel_fronts dominated counts' next_front (fronts @ [current_front])))"
  by pat_completeness auto
termination
proof (relation "measure (\<lambda>(dominated, counts, current_front, fronts).
                   2 * pending counts + (if current_front = [] then 0 else 1))")
  show "wf (measure (\<lambda>(dominated, counts, current_front, fronts).
                   2 * pending counts + (if current_front = [] then 0 else (1::nat))))"
    by simp
next
  fix dominated :: "nat list list" and counts :: "int list"
    and current_front :: "nat list" and fronts :: "nat list list"
    and st' :: "int list \<times> nat list" and counts' :: "int list" and next_front :: "nat list"
  assume ne: "current_front \<noteq> []"
    and scan: "scan_front dominated current_front (counts, []) = Inr st'"
    and st': "(counts', next_front) = st'"
  have release: "pending c' + length n' \<le> pending c + length n"
    if "release_dominated js (c, n) = Inr (c', n')" for js c n c' n'
    using that
  proof (induction js arbitrary: c n)
    case Nil
    then show ?case by simp
  next
    case (Cons j js)
    from Cons.prems have j: "j < length c" by (auto split: if_splits)
    let ?c = "c[j := c ! j - 1]"
    let ?n = "if ?c ! j = 0 then n @ [j] else n"
    from Cons.prems j have "release_dominated js (?c, ?n) = Inr (c', n')"
      by (simp add: Let_def)
    from Cons.IH[OF this] have ih: "pending c' + length n' \<le> pending ?c + length ?n" .
    have upd: "pending ?c = pending c + nat (c ! j - 1) - nat (c ! j)"
      using j by (simp add: pending_def map_update sum_list_update)
    have "nat (c ! j) \<in> set (map nat c)" using j by (metis length_map nth_map nth_mem)
    then have ge: "nat (c ! j) \<le> pending c"
      unfolding pending_def by (intro member_le_sum_list) simp_all
    have cj: "?c ! j = c ! j - 1" using j by simp
    have "pending ?c + length ?n \<le> pending c + length n"
    proof (cases "c ! j = 1")
      case True
      then show ?thesis using upd ge cj by simp
    next
      case False
      then have "?n = n" using cj by simp
      moreover have "pending ?c \<le> pending c" using upd ge by linarith
      ultimately show ?thesis by simp
    qed
    with ih show ?case by linarith
  qed
  have scan_le: "pending c' + length n' \<le> pending c + length n"
    if "scan_front dominated is (c, n) = Inr (c', n')" for "is" c n c' n'
    using that
  proof (induction "is" arbitrary: c n)
    case Nil
    then show ?case by simp
  next
    case (Cons i "is")
    from Cons.prems obtain c1 n1 where r: "release_dominated (dominated ! i) (c, n) = Inr (c1, n1)"
      and s: "scan_front dominated is (c1, n1) = Inr (c', n')"
      by (auto split: if_splits sum.splits)
    from release[OF r] Cons.IH[OF s] show ?case by linarith
  qed
  from scan st' have "scan_front dominated current_front (counts, []) = Inr (counts', next_front)"
    by simp
  from scan_le[OF this] have le: "pending counts' + length next_front \<le> pending counts"
    by simp
  have "next_front \<noteq> [] \<Longrightarrow> pending counts' < pending counts"
  proof -
    assume "next_front \<noteq> []"
    then have "0 < length next_front" by simp
    with le show ?thesis by linarith
  qed
  with le show "((dominated, counts', next_front, fronts @ [current_front]),
          (dominated, counts, current_front, fronts))
         \<in> measure (\<lambda>(dominated, counts, current_front, fronts).
                   2 * pending counts + (if current_front = [] then 0 else 1))"
    using ne by (cases "next_front = []") auto
qed

definition non_dominated_sort :: "real list list \<Rightarrow> error + nat list list" where
  "non_dominated_sort objectives =
     bind_res (rank_population objectives)
       (\<lambda>rk. peel_fronts (dominated_solutions rk) (map int (domination_count rk))
               (np_where_eq (domination_count rk) 0) [])"



text \<open>
  Python's indexing with a possibly negative index, and numpy's indexing of an array by a
  list of indices; both raise \<^verbatim>\<open>IndexError\<close> out of range.
\<close>

definition getitem_py :: "'a list \<Rightarrow> int \<Rightarrow> error + 'a" where
  "getitem_py xs k =
     (let n = int (length xs); k' = (if k < 0 then n + k else k)
      in if 0 \<le> k' \<and> k' < n then Inr (xs ! nat k') else Inl IndexError)"

definition take_items :: "'a list \<Rightarrow> nat list \<Rightarrow> error + 'a list" where
  "take_items xs idx =
     (if list_all (\<lambda>i. i < length xs) idx then Inr (map (\<lambda>i. xs ! i) idx) else Inl IndexError)"

text \<open>\<^verbatim>\<open>objectives[idx, k]\<close>: column \<open>k\<close> of the rows \<open>idx\<close>.\<close>

definition column_at :: "real list list \<Rightarrow> nat list \<Rightarrow> nat \<Rightarrow> error + real list" where
  "column_at objectives idx k =
     (if list_all (\<lambda>i. i < length objectives \<and> k < length (objectives ! i)) idx
      then Inr (map (\<lambda>i. objectives ! i ! k) idx) else Inl IndexError)"

text \<open>
  Crowding distances are floats that may be infinite or \<^verbatim>\<open>nan\<close>: the boundary members
  of a front receive \<^verbatim>\<open>np.inf\<close>, and a division by a zero range gives \<^verbatim>\<open>inf\<close> or
  \<^verbatim>\<open>nan\<close> with a warning, no exception.
\<close>

datatype fnum = Finite real | PosInf | NegInf | NaN

definition fnum_div :: "real \<Rightarrow> real \<Rightarrow> fnum" where
  "fnum_div a b =
     (if b \<noteq> 0 then Finite (a / b)
      else if a > 0 then PosInf else if a < 0 then NegInf else NaN)"

fun fnum_add :: "fnum \<Rightarrow> fnum \<Rightarrow> fnum" where
  "fnum_add NaN y = NaN"
| "fnum_add x NaN = NaN"
| "fnum_add (Finite a) (Finite b) = Finite (a + b)"
| "fnum_add PosInf NegInf = NaN"
| "fnum_add NegInf PosInf = NaN"
| "fnum_add PosInf y = PosInf"
| "fnum_add x PosInf = PosInf"
| "fnum_add NegInf y = NegInf"
| "fnum_add x NegInf = NegInf"

fun fnum_neg :: "fnum \<Rightarrow> fnum" where
  "fnum_neg (Finite a) = Finite (- a)"
| "fnum_neg PosInf = NegInf"
| "fnum_neg NegInf = PosInf"
| "fnum_neg NaN = NaN"

text \<open>
  \<^verbatim>\<open>crowding_distance(objectives)\<close>. The order in which \<^verbatim>\<open>np.argsort\<close> leaves equal
  keys depends on numpy's sort, so the sort is the parameter \<open>argsort\<close>. The inner loop
  adds to the distance of the member at position \<open>i\<close> the gap between its neighbours
  over the range of the objective.
\<close>

fun crowding_inner ::
  "real list list \<Rightarrow> nat list \<Rightarrow> nat \<Rightarrow> nat list \<Rightarrow> fnum list \<Rightarrow> error + fnum list" where
  "crowding_inner objectives sorted_indices obj_index [] crowding_distances = Inr crowding_distances"
| "crowding_inner objectives sorted_indices obj_index (i # is) crowding_distances =
     (if 0 < i \<and> i + 1 < length sorted_indices
         \<and> list_all (\<lambda>p. p < length objectives \<and> obj_index < length (objectives ! p))
               [sorted_indices ! (i + 1), sorted_indices ! (i - 1), last sorted_indices,
                sorted_indices ! 0]
         \<and> sorted_indices ! i < length crowding_distances
      then crowding_inner objectives sorted_indices obj_index is
             (crowding_distances
                [sorted_indices ! i :=
                   fnum_add (crowding_distances ! (sorted_indices ! i))
                     (fnum_div
                        (objectives ! (sorted_indices ! (i + 1)) ! obj_index
                         - objectives ! (sorted_indices ! (i - 1)) ! obj_index)
                        (objectives ! (last sorted_indices) ! obj_index
                         - objectives ! (sorted_indices ! 0) ! obj_index))])
      else Inl IndexError)"

fun crowding_outer ::
  "(fnum list \<Rightarrow> nat list) \<Rightarrow> real list list \<Rightarrow> nat list \<Rightarrow> fnum list \<times> nat list \<Rightarrow>
   error + (fnum list \<times> nat list)" where
  "crowding_outer argsort objectives [] st = Inr st"
| "crowding_outer argsort objectives (obj_index # rest) (crowding_distances, sorted_indices) =
     (case column_at objectives sorted_indices obj_index of
        Inl e \<Rightarrow> Inl e
      | Inr keys \<Rightarrow>
          (case take_items sorted_indices (argsort (map Finite keys)) of
             Inl e \<Rightarrow> Inl e
           | Inr sorted_indices' \<Rightarrow>
               (if sorted_indices' = [] \<or> \<not> sorted_indices' ! 0 < length crowding_distances
                   \<or> \<not> last sorted_indices' < length crowding_distances
                then Inl IndexError
                else
                  (case crowding_inner objectives sorted_indices' obj_index
                          [1..<length objectives - 1]
                          (crowding_distances[sorted_indices' ! 0 := PosInf,
                                              last sorted_indices' := PosInf]) of
                     Inl e \<Rightarrow> Inl e
                   | Inr crowding_distances' \<Rightarrow>
                       crowding_outer argsort objectives rest
                         (crowding_distances', sorted_indices')))))"

text \<open>
  The array passed has two columns, also when it has no rows; with no rows the first pass
  fails at \<^verbatim>\<open>sorted_indices[0]\<close>.
\<close>

definition crowding_distance ::
  "(fnum list \<Rightarrow> nat list) \<Rightarrow> real list list \<Rightarrow> error + (fnum list \<times> nat list)" where
  "crowding_distance argsort objectives =
     (let num_solutions = length objectives
      in if objectives = [] then Inl IndexError
         else crowding_outer argsort objectives [0..<length (objectives ! 0)]
                (replicate num_solutions (Finite 0), [0..<num_solutions]))"

text \<open>
  The selection of the parents: whole fronts while they fit, then members of the front
  at \<^verbatim>\<open>front_index - 1\<close> by decreasing crowding distance. The state of the
  \<^verbatim>\<open>while\<close> loop is \<^verbatim>\<open>selected_parents\<close> and \<^verbatim>\<open>front_index\<close>; the loop keeps
  \<^verbatim>\<open>len(selected_parents) <= pop_size\<close>, so the slice bound is not negative.
\<close>

fun take_fronts :: "nat \<Rightarrow> nat list list \<Rightarrow> nat list \<times> nat \<Rightarrow> nat list \<times> nat" where
  "take_fronts pop_size [] st = st"
| "take_fronts pop_size (front # rest) (selected_parents, front_index) =
     (if length selected_parents + length front \<le> pop_size
      then take_fronts pop_size rest (selected_parents @ front, front_index + 1)
      else (selected_parents, front_index))"

definition select_parents ::
  "(fnum list \<Rightarrow> nat list) \<Rightarrow> nat \<Rightarrow> real list list \<Rightarrow> error + nat list" where
  "select_parents argsort pop_size objectives =
     bind_res (non_dominated_sort objectives)
       (\<lambda>fronts.
          let (selected_parents, front_index) = take_fronts pop_size fronts ([], 0)
          in bind_res (getitem_py fronts (int front_index - 1))
               (\<lambda>front. bind_res (take_items objectives front)
                 (\<lambda>front_objectives. bind_res (crowding_distance argsort front_objectives)
                   (\<lambda>(crowding_distances, sorted_indices).
                      bind_res (take_items sorted_indices
                                  (argsort (map fnum_neg crowding_distances)))
                        (\<lambda>sorted_indices.
                           bind_res (take_items front
                                       (take (pop_size - length selected_parents) sorted_indices))
                             (\<lambda>filled. Inr (selected_parents @ filled)))))))"

text \<open>\<^verbatim>\<open>np.argmin\<close>: the first index of the least value; \<^verbatim>\<open>ValueError\<close> on no values.\<close>

definition np_argmin :: "real list \<Rightarrow> error + nat" where
  "np_argmin xs =
     (if xs = [] then Inl ValueError
      else Inr (hd (filter (\<lambda>i. xs ! i = Min (set xs)) [0..<length xs])))"

text \<open>
  One pass of the loop over the generations. The evaluation of the population is the code
  of \<^verbatim>\<open>fit_func\<close>. The cell calls \<^verbatim>\<open>crossover(new_population)\<close> and
  \<^verbatim>\<open>mutation(new_population)\<close>, so the probabilities of a run of the notebook are the
  0.9 and 0.1 of the two signatures; here they are the parameters \<open>crossover_prob\<close> and
  \<open>mutation_prob\<close>, passed on to the two functions, so that a run with other
  probabilities can be stated. \<^verbatim>\<open>best_index\<close> is computed on the objectives of the
  population before the selection and indexes the population after it. The state is the
  population, the position in the random stream, and the lists \<^verbatim>\<open>best_solutions\<close> and
  \<^verbatim>\<open>best_objectives\<close>.
\<close>

definition generation ::
  "globals \<Rightarrow> real \<Rightarrow> real \<Rightarrow> (fnum list \<Rightarrow> nat list) \<Rightarrow> rng \<Rightarrow>
   real list list \<times> nat \<times> real list list \<times> real list list \<Rightarrow>
   error + (real list list \<times> nat \<times> real list list \<times> real list list)" where
  "generation g crossover_prob mutation_prob argsort rng st =
     (let (population, pos, best_solutions, best_objectives) = st
      in bind_res (fit_func g (g_pop_size g) population)
        (\<lambda>objectives. bind_res (select_parents argsort (g_pop_size g) objectives)
          (\<lambda>selected_parents. bind_res (take_items population selected_parents)
            (\<lambda>new_population. bind_res (crossover_uniform rng crossover_prob new_population pos)
              (\<lambda>(new_population, pos).
                 bind_res (mutation rng mutation_prob (g_s_max g) new_population pos)
                   (\<lambda>(new_population, pos).
                      bind_res (column_at objectives [0..<length objectives] 0)
                        (\<lambda>column_0. bind_res (column_at objectives [0..<length objectives] 1)
                          (\<lambda>column_1. bind_res (np_argmin (map2 (+) column_0 column_1))
                            (\<lambda>best_index. bind_res (getitem new_population best_index)
                              (\<lambda>best_solution. bind_res (getitem objectives best_index)
                                (\<lambda>best_objective.
                                   Inr (new_population, pos, best_solutions @ [best_solution],
                                        best_objectives @ [best_objective]))))))))))))"



text \<open>
  A sort for the runs below: insertion of the indices one by one, an index after the
  indices of equal key, with \<^verbatim>\<open>nan\<close> last, as numpy orders floats.
\<close>

fun fnum_less :: "fnum \<Rightarrow> fnum \<Rightarrow> bool" where
  "fnum_less NaN y = False"
| "fnum_less x NaN = True"
| "fnum_less x NegInf = False"
| "fnum_less NegInf y = True"
| "fnum_less PosInf y = False"
| "fnum_less x PosInf = True"
| "fnum_less (Finite a) (Finite b) = (a < b)"

fun insert_index :: "fnum list \<Rightarrow> nat \<Rightarrow> nat list \<Rightarrow> nat list" where
  "insert_index keys i [] = [i]"
| "insert_index keys i (j # js) =
     (if fnum_less (keys ! i) (keys ! j) then i # j # js else j # insert_index keys i js)"

definition argsort_stable :: "fnum list \<Rightarrow> nat list" where
  "argsort_stable keys = foldl (\<lambda>sorted i. insert_index keys i sorted) [] [0..<length keys]"

text \<open>
  Data for a run by hand: one week with inflow 10, demand 4 and an empty reservoir of
  capacity 100, four candidates releasing one half, all, a quarter and three quarters of
  the demand, and a random stream whose every number is one half.
\<close>

definition one_week :: globals where
  "one_week =
     \<lparr>g_inflow = [10], g_evap = [0], g_demand = [4],
      g_s_0 = 0, g_s_max = 100, g_s_min = 0, g_env_min = 0, g_pop_size = 4\<rparr>"

definition four_candidates :: "real list list" where
  "four_candidates = [[1 / 2], [1], [1 / 4], [3 / 4]]"

definition half_stream :: rng where
  "half_stream k = 1 / 2"

section \<open>Predicates used in the proofs\<close>

text \<open>
  The water balance of step \<open>t\<close> in closed form, on the arrays \<open>r\<close> that a run
  returns for the candidate supply \<open>cand\<close>: the available water \<open>a\<close>, the
  environmental flow \<open>e\<close>, the water \<open>b\<close> left for supply, the realised supply
  \<open>u\<close>, the water \<open>c\<close> left after supply and the spill \<open>sp\<close>.
\<close>

definition mass_balance_at ::
  "real list \<Rightarrow> real list \<Rightarrow> real \<Rightarrow> real \<Rightarrow> real list \<Rightarrow> sim \<Rightarrow> nat \<Rightarrow> bool" where
  "mass_balance_at inflow evap s_max env_min cand r t =
     (let a = s_arr r ! t + inflow ! t - evap ! t;
          e = (if a \<le> 0 then a else min env_min a);
          b = a - e;
          u = (if b \<le> 0 then b else min (cand ! t) b);
          c = b - u;
          sp = (if c > s_max then c - s_max else 0)
      in env_arr r ! t = e \<and> supply_arr r ! t = u \<and> spill_arr r ! t = sp
         \<and> s_arr r ! (t + 1) = c - sp)"

text \<open>
  The invariant of the loop before step \<open>t\<close>: the arrays keep their lengths, the
  entries from \<open>t\<close> on still hold their initial values, and the steps before
  \<open>t\<close> satisfy the water balance.
\<close>

definition sim_inv ::
  "real list \<Rightarrow> real list \<Rightarrow> real \<Rightarrow> real \<Rightarrow> real \<Rightarrow> real list \<Rightarrow> nat \<Rightarrow> sim \<Rightarrow> bool" where
  "sim_inv inflow evap s_0 s_max env_min cand t st =
     (length (s_arr st) = length inflow + 1 \<and> length (env_arr st) = length inflow
      \<and> length (spill_arr st) = length inflow \<and> length (supply_arr st) = length cand
      \<and> s_arr st ! 0 = s_0
      \<and> (\<forall>i. t \<le> i \<and> i < length inflow \<longrightarrow> env_arr st ! i = env_min \<and> spill_arr st ! i = 0)
      \<and> (\<forall>i. t \<le> i \<and> i < length cand \<longrightarrow> supply_arr st ! i = cand ! i)
      \<and> (\<forall>i<t. mass_balance_at inflow evap s_max env_min cand st i))"

text \<open>
  The invariant of the ranking iteration: the tables keep their lengths, and a candidate that
  no candidate dominates keeps the domination count 0.
\<close>

definition rank_inv :: "real list list \<Rightarrow> ranking \<Rightarrow> bool" where
  "rank_inv objectives rk =
     (length (domination_count rk) = length objectives
      \<and> length (dominated_solutions rk) = length objectives
      \<and> (\<forall>k<length objectives.
            (\<forall>m<length objectives. dominates (objectives ! m) (objectives ! k) \<noteq> Inr True)
            \<longrightarrow> domination_count rk ! k = 0))"

text \<open>
  For the simulator on the store: \<open>separate\<close> says that the four arrays the loop
  writes are different objects, and different from the two it only reads;
  \<open>put h rs st\<close> is the store \<open>h\<close> with these four arrays holding the state
  \<open>st\<close> of the loop on lists.
\<close>

definition separate :: "sim_refs \<Rightarrow> bool" where
  "separate rs =
     (distinct [s_ref rs, env_ref rs, spill_ref rs, supply_ref rs]
      \<and> inflow_ref rs \<notin> {s_ref rs, env_ref rs, spill_ref rs, supply_ref rs}
      \<and> evap_ref rs \<notin> {s_ref rs, env_ref rs, spill_ref rs, supply_ref rs})"

definition put :: "store \<Rightarrow> sim_refs \<Rightarrow> sim \<Rightarrow> store" where
  "put h rs st =
     h\<lparr>cells := (cells h)(s_ref rs := s_arr st, env_ref rs := env_arr st,
                          spill_ref rs := spill_arr st, supply_ref rs := supply_arr st)\<rparr>"

text \<open>A store holding the given arrays at the references \<open>0, 1, 2, \<dots>\<close>.\<close>

definition store_of :: "real list list \<Rightarrow> store" where
  "store_of xss = \<lparr>cells = (\<lambda>r. if r < length xss then xss ! r else []), fresh = length xss\<rparr>"





section \<open>The simulator: the loop and its invariant\<close>

lemma res_sim_loop_rule:
  assumes "I k st" and "k \<le> T"
    and step: "\<And>t st. k \<le> t \<Longrightarrow> t < T \<Longrightarrow> I t st \<Longrightarrow>
                 \<exists>st'. res_sim_step inflow evap s_max t st = Inr st' \<and> I (Suc t) st'"
  shows "\<exists>st'. res_sim_loop inflow evap s_max [k..<T] st = Inr st' \<and> I T st'"
  using assms
proof (induction "T - k" arbitrary: k st)
  case 0
  then show ?case by simp
next
  case (Suc n)
  then have kT: "k < T" by linarith
  from Suc.prems(3)[OF le_refl kT Suc.prems(1)] obtain st1
    where s1: "res_sim_step inflow evap s_max k st = Inr st1" and i1: "I (Suc k) st1" by blast
  have "n = T - Suc k" using Suc.hyps(2) by linarith
  from Suc.hyps(1)[OF this i1] kT Suc.prems(3)
  obtain st' where "res_sim_loop inflow evap s_max [Suc k..<T] st1 = Inr st'" "I T st'"
    by (metis Suc_leD Suc_leI)
  then show ?case using kT s1 by (simp add: upt_conv_Cons)
qed

lemma res_sim_step_inv:
  assumes "sim_inv inflow evap s_0 s_max env_min cand t st" "t < length inflow"
    "length inflow \<le> length evap" "length inflow \<le> length cand"
  shows "\<exists>st'. res_sim_step inflow evap s_max t st = Inr st'
            \<and> sim_inv inflow evap s_0 s_max env_min cand (Suc t) st'"
proof -
  from assms have L: "t < length evap" "t < length (supply_arr st)" "t + 1 < length (s_arr st)"
    "t < length (env_arr st)" "t < length (spill_arr st)" "t < length cand"
    by (auto simp: sim_inv_def)
  from assms have init: "env_arr st ! t = env_min" "spill_arr st ! t = 0"
    "supply_arr st ! t = cand ! t"
    using L by (auto simp: sim_inv_def)
  obtain st' where st': "res_sim_step inflow evap s_max t st = Inr st'"
    using L assms(2) by (auto simp: res_sim_step_def Let_def)
  have len: "length (s_arr st') = length (s_arr st)" "length (env_arr st') = length (env_arr st)"
    "length (spill_arr st') = length (spill_arr st)"
    "length (supply_arr st') = length (supply_arr st)"
    using st' L assms(2) by (auto simp: res_sim_step_def Let_def)
  have frame: "\<And>i. i \<noteq> t \<Longrightarrow> env_arr st' ! i = env_arr st ! i
       \<and> spill_arr st' ! i = spill_arr st ! i \<and> supply_arr st' ! i = supply_arr st ! i"
    using st' L assms(2) by (auto simp: res_sim_step_def Let_def)
  have frame_s: "\<And>i. i \<noteq> t + 1 \<Longrightarrow> s_arr st' ! i = s_arr st ! i"
    using st' L assms(2) by (auto simp: res_sim_step_def Let_def)
  have here: "mass_balance_at inflow evap s_max env_min cand st' t"
    using st' L assms(2) init frame_s[of t]
    apply (simp add: res_sim_step_def mass_balance_at_def)
    apply (auto simp: Let_def min_def split: if_splits)
    done
  have old: "\<And>i. i < t \<Longrightarrow> mass_balance_at inflow evap s_max env_min cand st' i"
  proof -
    fix i assume "i < t"
    then have "mass_balance_at inflow evap s_max env_min cand st i"
      using assms(1) by (simp add: sim_inv_def)
    then show "mass_balance_at inflow evap s_max env_min cand st' i"
      using frame[of i] frame_s[of i] frame_s[of "i + 1"] \<open>i < t\<close>
      by (simp add: mass_balance_at_def)
  qed
  have "sim_inv inflow evap s_0 s_max env_min cand (Suc t) st'"
    unfolding sim_inv_def
    using assms(1) len frame frame_s here old
    by (auto simp: sim_inv_def less_Suc_eq)
  with st' show ?thesis by blast
qed

lemma res_sim_trajectory:
  assumes "length inflow \<le> length evap" "length inflow \<le> length cand"
  shows "\<exists>r. res_sim inflow evap demand s_0 s_max env_min cand = Inr r
            \<and> sim_inv inflow evap s_0 s_max env_min cand (length inflow) r"
proof -
  let ?st = "\<lparr>s_arr = (replicate (length inflow + 1) 0)[0 := s_0],
              env_arr = map (\<lambda>z. z + env_min) (replicate (length inflow) 0),
              spill_arr = replicate (length inflow) 0, supply_arr = cand\<rparr>"
  have i0: "sim_inv inflow evap s_0 s_max env_min cand 0 ?st"
    by (simp add: sim_inv_def)
  have "\<exists>st'. res_sim_loop inflow evap s_max [0..<length inflow] ?st = Inr st'
            \<and> sim_inv inflow evap s_0 s_max env_min cand (length inflow) st'"
    by (rule res_sim_loop_rule[where I = "sim_inv inflow evap s_0 s_max env_min cand", OF i0])
       (use assms in \<open>auto intro: res_sim_step_inv\<close>)
  then show ?thesis by (simp add: res_sim_def Let_def)
qed

lemma mass_balance_storage:
  assumes "mass_balance_at inflow evap s_max env_min cand r t" "0 \<le> s_max"
  shows "0 \<le> s_arr r ! (t + 1) \<and> s_arr r ! (t + 1) \<le> s_max"
  using assms by (auto simp: mass_balance_at_def Let_def min_def split: if_splits)

lemma mass_balance_no_water:
  assumes "mass_balance_at inflow evap s_max env_min cand r t"
    "s_arr r ! t + inflow ! t - evap ! t \<le> 0"
  shows "supply_arr r ! t = 0 \<and> env_arr r ! t = s_arr r ! t + inflow ! t - evap ! t"
  using assms by (auto simp: mass_balance_at_def Let_def)

lemma mass_balance_outputs:
  assumes "mass_balance_at inflow evap s_max env_min cand r t" "0 \<le> cand ! t"
  shows "0 \<le> spill_arr r ! t \<and> 0 \<le> supply_arr r ! t \<and> supply_arr r ! t \<le> cand ! t"
  using assms by (auto simp: mass_balance_at_def Let_def min_def split: if_splits)

text \<open>
  In exact arithmetic the storage stays within the capacity: for equal-length non-negative
  inflow, evaporation and candidate supply series and an initial storage
  \<open>0 \<le> s_0 \<le> s_max\<close>, the simulator over the reals returns, and every entry of the
  storage sequence \<open>s[0..T]\<close> it returns lies in \<open>[0, s_max]\<close>. The spill is what
  keeps the storage below \<open>s_max\<close>.
\<close>

lemma res_sim_exact_storage_bounds:
  assumes "length evap = length inflow" "length supply = length inflow"
    and "\<forall>x\<in>set inflow. 0 \<le> x" "\<forall>x\<in>set evap. 0 \<le> x" "\<forall>x\<in>set supply. 0 \<le> x"
    and "0 \<le> s_0" "s_0 \<le> s_max"
  shows "\<exists>r. res_sim inflow evap demand s_0 s_max env_min supply = Inr r
            \<and> length (s_arr r) = length inflow + 1
            \<and> (\<forall>x\<in>set (s_arr r). 0 \<le> x \<and> x \<le> s_max)"
proof -
  from res_sim_trajectory[of inflow evap "supply" demand s_0 s_max env_min] assms(1,2)
  obtain r where r: "res_sim inflow evap demand s_0 s_max env_min supply = Inr r"
    and inv: "sim_inv inflow evap s_0 s_max env_min supply (length inflow) r" by auto
  have len: "length (s_arr r) = length inflow + 1" using inv by (simp add: sim_inv_def)
  have smax: "0 \<le> s_max" using assms(6,7) by linarith
  have "0 \<le> s_arr r ! i \<and> s_arr r ! i \<le> s_max" if "i < length (s_arr r)" for i
  proof (cases i)
    case 0
    then show ?thesis using inv assms(6,7) by (simp add: sim_inv_def)
  next
    case (Suc j)
    then have "j < length inflow" using that len by simp
    then have "mass_balance_at inflow evap s_max env_min supply r j"
      using inv by (simp add: sim_inv_def)
    from mass_balance_storage[OF this smax] show ?thesis using Suc by simp
  qed
  then have "\<forall>x\<in>set (s_arr r). 0 \<le> x \<and> x \<le> s_max"
    by (auto simp: in_set_conv_nth)
  with r len show ?thesis by blast
qed

lemma res_sim_exact_storage_bounds_example:
  "\<exists>r. res_sim [15, 17] [1, 1] [13, 13] 80 150 2 [13, 13] = Inr r
            \<and> length (s_arr r) = length [15, 17 :: real] + 1
            \<and> (\<forall>x\<in>set (s_arr r). 0 \<le> x \<and> x \<le> 150)"
  using res_sim_exact_storage_bounds[of "[1, 1]" "[15, 17]" "[13, 13]" 80 150 "[13, 13]" 2]
  by simp

lemma f64_examples:
  "f64 1 = 1" "f64 (1 / 10) = 3602879701896397 / 2 ^ 55"
  "f64 (2 / 5) = 3602879701896397 / 2 ^ 53" "f64 (1 + 1 / 2 ^ 53) = 1"
  "f64 (1 + 3 / 2 ^ 53) = 1 + 1 / 2 ^ 51"
  by code_simp+

text \<open>
  Claim C1. Every entry of the returned storage sequence lies in \<open>[0, s_max]\<close>: in the
  binary64 arithmetic of the code this fails. With the inflow \<^verbatim>\<open>[0.6]\<close>, no evaporation,
  \<^verbatim>\<open>s_0 = s_max = 0.4\<close>, \<^verbatim>\<open>env_min = 0.1\<close> and the candidate supply \<^verbatim>\<open>[0.2]\<close>, all
  non-negative and of equal length, the water left after supply is above \<open>s_max\<close>, the
  spill is computed as the rounded excess \<^verbatim>\<open>0.29999999999999993\<close>, and the storage,
  computed again from \<^verbatim>\<open>s[t]\<close> in another order of operations, is
  \<^verbatim>\<open>0.4000000000000001\<close>, one unit in the last place above \<open>s_max\<close>.
\<close>

theorem res_sim_f64_exceeds_capacity:
  "res_sim_f64 [f64 (3 / 5)] [0] [0] (f64 (2 / 5)) (f64 (2 / 5)) (f64 (1 / 10)) [f64 (1 / 5)]
   = Inr \<lparr>s_arr = [f64 (2 / 5), f64 (2 / 5) + 1 / 2 ^ 54], env_arr = [f64 (1 / 10)],
          spill_arr = [2702159776422297 / 2 ^ 53], supply_arr = [f64 (1 / 5)]\<rparr>
   \<and> f64 (2 / 5) < f64 (2 / 5) + 1 / 2 ^ 54"
proof -
  have "res_sim_f64 [f64 (3 / 5)] [0] [0] (f64 (2 / 5)) (f64 (2 / 5)) (f64 (1 / 10))
          [f64 (1 / 5)]
        = Inr \<lparr>s_arr = [f64 (2 / 5), f64 (2 / 5) + 1 / 2 ^ 54], env_arr = [f64 (1 / 10)],
               spill_arr = [2702159776422297 / 2 ^ 53], supply_arr = [f64 (1 / 5)]\<rparr>"
    by code_simp
  then show ?thesis by simp
qed

text \<open>
  The same on numbers with short binary expansions, and below zero: with
  \<open>s_0 = s_max = 1\<close>, inflow 3 and a supply of \<open>1 - 2 ^ (- 52)\<close> the storage ends at
  \<open>1 + 2 ^ (- 52)\<close>; with \<open>s_0 = s_max = 0\<close>, inflow 1 and a supply of
  \<open>2 ^ (- 60)\<close> the rounded excess is the whole inflow and the storage ends at
  \<open>- 2 ^ (- 60)\<close>.
\<close>

lemma res_sim_f64_dyadic_examples:
  "res_sim_f64 [3] [0] [0] 1 1 0 [1 - 1 / 2 ^ 52]
   = Inr \<lparr>s_arr = [1, 1 + 1 / 2 ^ 52], env_arr = [0], spill_arr = [2],
          supply_arr = [1 - 1 / 2 ^ 52]\<rparr>"
  "res_sim_f64 [1] [0] [0] 0 0 0 [1 / 2 ^ 60]
   = Inr \<lparr>s_arr = [0, - (1 / 2 ^ 60)], env_arr = [0], spill_arr = [1],
          supply_arr = [1 / 2 ^ 60]\<rparr>"
  by code_simp+

text \<open>
  Claim C3. For a run of \<^verbatim>\<open>res_sim\<close> with non-negative candidate supply values, at
  every time step the spill is non-negative, the realised supply is non-negative, and the
  realised supply is at most the candidate supply of that step.
\<close>

theorem res_sim_outputs_bounds:
  assumes "length evap = length inflow" "length supply = length inflow"
    and "\<forall>x\<in>set supply. 0 \<le> x"
  shows "\<exists>r. res_sim inflow evap demand s_0 s_max env_min supply = Inr r
            \<and> length (spill_arr r) = length inflow \<and> length (supply_arr r) = length inflow
            \<and> (\<forall>t<length inflow. 0 \<le> spill_arr r ! t \<and> 0 \<le> supply_arr r ! t
                    \<and> supply_arr r ! t \<le> supply ! t)"
proof -
  from res_sim_trajectory[of inflow evap "supply" demand s_0 s_max env_min] assms(1,2)
  obtain r where r: "res_sim inflow evap demand s_0 s_max env_min supply = Inr r"
    and inv: "sim_inv inflow evap s_0 s_max env_min supply (length inflow) r" by auto
  have "0 \<le> spill_arr r ! t \<and> 0 \<le> supply_arr r ! t \<and> supply_arr r ! t \<le> supply ! t"
    if "t < length inflow" for t
  proof -
    have "mass_balance_at inflow evap s_max env_min supply r t"
      using inv that by (simp add: sim_inv_def)
    moreover have "0 \<le> supply ! t" using assms(2,3) that by simp
    ultimately show ?thesis by (rule mass_balance_outputs)
  qed
  then show ?thesis using r inv assms(2) by (auto simp: sim_inv_def)
qed

theorem res_sim_outputs_bounds_witness:
  "\<exists>r. res_sim [15, 17] [1, 1] [13, 13] 3 150 2 [13, 30] = Inr r
            \<and> length (spill_arr r) = length [15, 17 :: real]
            \<and> length (supply_arr r) = length [15, 17 :: real]
            \<and> (\<forall>t<length [15, 17 :: real]. 0 \<le> spill_arr r ! t \<and> 0 \<le> supply_arr r ! t
                    \<and> supply_arr r ! t \<le> [13, 30] ! t)"
  using res_sim_outputs_bounds[of "[1, 1]" "[15, 17]" "[13, 30]" "[13, 13]" 3 150 2]
  by simp

text \<open>
  Claim C2. The claim says that the environmental flow is never negative and that, when the
  available water \<open>a = s[t] + inflow[t] - evap[t]\<close> is at most 0, the environmental flow
  and the realised supply are both 0. The source assigns \<^verbatim>\<open>env[t] = 0\<close> when
  \<open>a \<le> 0\<close>, and its next statement, a second \<^verbatim>\<open>if\<close> that tests
  \<^verbatim>\<open>env[t] >= a\<close>, then holds and overwrites that 0 with \<open>a\<close>. With an empty reservoir, no inflow and an evaporation
  of 1 the available water is \<open>- 1\<close>, and the run returns the environmental flow
  \<open>- 1\<close>.
\<close>

theorem res_sim_env_negative:
  "res_sim [0] [1] [0] 0 10 2 [0]
     = Inr \<lparr>s_arr = [0, 0], env_arr = [- 1], spill_arr = [0], supply_arr = [0]\<rparr>"
  by (simp add: res_sim_def res_sim_step_def Let_def)

text \<open>
  What holds at a step without water, for every run: the realised supply is 0, and the
  environmental flow equals the available water, which is 0 or negative.
\<close>

lemma res_sim_no_water:
  assumes "length evap = length inflow" "length supply = length inflow"
  shows "\<exists>r. res_sim inflow evap demand s_0 s_max env_min supply = Inr r
            \<and> (\<forall>t<length inflow. s_arr r ! t + inflow ! t - evap ! t \<le> 0 \<longrightarrow>
                   supply_arr r ! t = 0
                   \<and> env_arr r ! t = s_arr r ! t + inflow ! t - evap ! t)"
proof -
  from res_sim_trajectory[of inflow evap "supply" demand s_0 s_max env_min] assms
  obtain r where r: "res_sim inflow evap demand s_0 s_max env_min supply = Inr r"
    and inv: "sim_inv inflow evap s_0 s_max env_min supply (length inflow) r" by auto
  have "supply_arr r ! t = 0 \<and> env_arr r ! t = s_arr r ! t + inflow ! t - evap ! t"
    if "t < length inflow" "s_arr r ! t + inflow ! t - evap ! t \<le> 0" for t
  proof -
    have "mass_balance_at inflow evap s_max env_min supply r t"
      using inv that(1) by (simp add: sim_inv_def)
    then show ?thesis using that(2) by (rule mass_balance_no_water)
  qed
  with r show ?thesis by blast
qed

section \<open>The objective functions\<close>

lemma reliability_loop_result:
  assumes "T \<le> length supply" "T \<le> length demand" "T \<le> length x" "k \<le> T"
  shows "\<exists>x'. reliability_loop supply demand [k..<T] x = Inr x' \<and> length x' = length x
            \<and> (\<forall>i<length x. x' ! i = (if k \<le> i \<and> i < T
                    then (if supply ! i \<ge> demand ! i then 0 else 1) else x ! i))"
  using assms
proof (induction "T - k" arbitrary: k x)
  case 0
  then show ?case by simp
next
  case (Suc n)
  then have kT: "k < T" by linarith
  let ?v = "if supply ! k \<ge> demand ! k then 0 else 1 :: real"
  have n: "n = T - Suc k" using Suc.hyps(2) by linarith
  have len: "T \<le> length (x[k := ?v])" using Suc.prems(3) by simp
  from Suc.hyps(1)[OF n Suc.prems(1,2) len] kT
  obtain x' where x': "reliability_loop supply demand [Suc k..<T] (x[k := ?v]) = Inr x'"
    "length x' = length x"
    "\<forall>i<length x. x' ! i = (if Suc k \<le> i \<and> i < T
                    then (if supply ! i \<ge> demand ! i then 0 else 1) else x[k := ?v] ! i)"
    by auto
  have "reliability_loop supply demand [k..<T] x = Inr x'"
    using kT Suc.prems x'(1) by (auto simp: upt_conv_Cons)
  moreover have "\<forall>i<length x. x' ! i = (if k \<le> i \<and> i < T
                    then (if supply ! i \<ge> demand ! i then 0 else 1) else x ! i)"
  proof (intro allI impI)
    fix i assume i: "i < length x"
    with x'(3) have e: "x' ! i = (if Suc k \<le> i \<and> i < T
                    then (if supply ! i \<ge> demand ! i then 0 else 1) else x[k := ?v] ! i)"
      by blast
    consider "i < k" | "i = k" | "Suc k \<le> i" by linarith
    then show "x' ! i = (if k \<le> i \<and> i < T
                    then (if supply ! i \<ge> demand ! i then 0 else 1) else x ! i)"
    proof cases
      case 1
      then show ?thesis using e by simp
    next
      case 2
      then show ?thesis using e kT i by simp
    next
      case 3
      then show ?thesis using e by (simp add: nth_list_update)
    qed
  qed
  ultimately show ?case using x'(2) by blast
qed

lemma sum_list_unit_bounds:
  fixes xs :: "real list"
  assumes "\<forall>x\<in>set xs. 0 \<le> x \<and> x \<le> 1"
  shows "0 \<le> sum_list xs \<and> sum_list xs \<le> real (length xs)"
  using assms by (induction xs) auto

text \<open>
  Claim C6. For a non-empty supply series and a demand series of the same length,
  \<^verbatim>\<open>reliability(supply, demand)\<close> returns a value in \<open>[0, 1]\<close>, and the value is 0
  if and only if \<open>supply[t] \<ge> demand[t]\<close> at every step \<open>t\<close>.
\<close>

theorem reliability_range:
  assumes "supply \<noteq> []" "length demand = length supply"
  shows "\<exists>v. reliability supply demand = Inr v \<and> 0 \<le> v \<and> v \<le> 1
            \<and> (v = 0 \<longleftrightarrow> (\<forall>t<length supply. supply ! t \<ge> demand ! t))"
proof -
  let ?T = "length supply"
  from reliability_loop_result[of ?T "supply" demand "replicate ?T 0" 0] assms(2)
  obtain x where x: "reliability_loop supply demand [0..<?T] (replicate ?T 0) = Inr x"
    "length x = ?T"
    "\<forall>i<?T. x ! i = (if supply ! i \<ge> demand ! i then 0 else 1)"
    by auto
  have ne: "x \<noteq> []" using x(2) assms(1) by auto
  have unit: "\<forall>y\<in>set x. 0 \<le> y \<and> y \<le> 1"
    using x(2,3) by (auto simp: in_set_conv_nth)
  then have nonneg: "\<And>y. y \<in> set x \<Longrightarrow> 0 \<le> y" by simp
  have val: "reliability supply demand = Inr (sum_list x / real (length x))"
    using x(1) ne by (simp add: reliability_def bind_res_def np_mean_def)
  have pos: "0 < real (length x)" using ne by simp
  have b: "0 \<le> sum_list x" "sum_list x \<le> real (length x)"
    using sum_list_unit_bounds[OF unit] by simp_all
  have "sum_list x = 0 \<longleftrightarrow> (\<forall>y\<in>set x. y = 0)"
    using nonneg by (rule sum_list_nonneg_eq_0_iff)
  also have "\<dots> \<longleftrightarrow> (\<forall>t<?T. x ! t = 0)"
    using x(2) by (metis in_set_conv_nth)
  also have "\<dots> \<longleftrightarrow> (\<forall>t<?T. supply ! t \<ge> demand ! t)"
    using x(3) by auto
  finally have zero: "sum_list x / real (length x) = 0 \<longleftrightarrow> (\<forall>t<?T. supply ! t \<ge> demand ! t)"
    using pos by simp
  have "0 \<le> sum_list x / real (length x)" "sum_list x / real (length x) \<le> 1"
    using b pos by simp_all
  with val zero show ?thesis by blast
qed

theorem reliability_range_witness:
  "\<exists>v. reliability [13, 7] [13, 26] = Inr v \<and> 0 \<le> v \<and> v \<le> 1
            \<and> (v = 0 \<longleftrightarrow> (\<forall>t<length [13, 7 :: real]. [13, 7 :: real] ! t \<ge> [13, 26] ! t))"
  using reliability_range[of "[13, 7]" "[13, 26]"] by simp

text \<open>
  Claim C4, as amended. In the scenario of the notebooks, with the candidate supply equal
  to the demand (in an array of its own), the storage evolves as \<open>s[1] = 79\<close>,
  \<open>s[2] = 80\<close> and on to \<open>s[7] = 4\<close>. In the last week only 9 units are available,
  2 go to the environmental flow and the supply is cut from 26 to 7, so the Reliability
  indicator is \<open>1/8\<close> and the Squared Deficit is \<open>361/8\<close>.
\<close>

theorem scenario_trajectory:
  "res_sim [15, 17, 19, 11, 9, 4, 3, 8] [1, 1, 2, 2, 2, 2, 2, 3] [13, 13, 17, 18, 20, 22, 25, 26]
     80 150 2 [13, 13, 17, 18, 20, 22, 25, 26]
   = Inr \<lparr>s_arr = [80, 79, 80, 78, 67, 52, 30, 4, 0], env_arr = [2, 2, 2, 2, 2, 2, 2, 2],
          spill_arr = [0, 0, 0, 0, 0, 0, 0, 0], supply_arr = [13, 13, 17, 18, 20, 22, 25, 7]\<rparr>
   \<and> auto_optim (notebook_globals 6) [13, 13, 17, 18, 20, 22, 25, 26] = Inr [1 / 8, 361 / 8]"
  by code_simp

text \<open>
  The claim C4 as stated, Reliability 0 and Squared Deficit 0 in this scenario, fails:
  \<^verbatim>\<open>auto_optim\<close> does not return \<open>[0, 0]\<close> for it.
\<close>

theorem scenario_not_zero:
  "auto_optim (notebook_globals 6) [13, 13, 17, 18, 20, 22, 25, 26] \<noteq> Inr [0, 0]"
  by code_simp

text \<open>
  The values 0 and 0 arise only if the demand array itself is passed as the candidate
  supply: the write to \<^verbatim>\<open>supply[7]\<close> then overwrites the demand of the last week
  with 7, and the objectives compare the supply with this overwritten demand. The
  notebooks never call \<^verbatim>\<open>res_sim\<close> this way.
\<close>

lemma scenario_aliased:
  "map_sum id
     (\<lambda>(h', rs). (cells h' 2, reliability (cells h' 2) (cells h' 2),
                   SD_func_loop (cells h' 2) (cells h' 2)))
     (res_sim_store
        (store_of [[15, 17, 19, 11, 9, 4, 3, 8], [1, 1, 2, 2, 2, 2, 2, 3],
                   [13, 13, 17, 18, 20, 22, 25, 26]])
        0 1 2 80 150 2 2)
   = Inr ([13, 13, 17, 18, 20, 22, 25, 7], Inr 0, Inr 0)"
  by code_simp

text \<open>
  Claim C5. The claim says that \<^verbatim>\<open>SD_func\<close> returns the mean of
  \<open>max(demand[t] - supply[t], 0)\<^sup>2\<close>, which is 0 when the supply covers the demand.
  The vectorised \<^verbatim>\<open>SD_func\<close> of the draft notebook does; the one of the optimisation
  notebook passes 0 as the axis of \<^verbatim>\<open>np.max\<close> and squares the difference unclamped.
  For a supply of 30 against a demand of 13 it returns \<open>17\<^sup>2 = 289\<close>.
\<close>

theorem SD_func_loop_oversupply:
  "SD_func_loop [30] [13] = Inr 289 \<and> SD_func_vec [30] [13] = Inr 0"
  by code_simp

text \<open>
  In general the \<^verbatim>\<open>SD_func\<close> of the optimisation notebook returns the mean of the
  squared differences, and the one of the draft notebook the mean of the squared
  shortfalls, which is 0 exactly when the supply covers the demand at every step.
\<close>

lemma SD_func_loop_body_result:
  assumes "T \<le> length supply" "T \<le> length demand" "T \<le> length sd" "k \<le> T"
  shows "\<exists>sd'. SD_func_loop_body supply demand [k..<T] sd = Inr sd' \<and> length sd' = length sd
            \<and> (\<forall>i<length sd. sd' ! i = (if k \<le> i \<and> i < T
                    then (demand ! i - supply ! i)\<^sup>2 else sd ! i))"
  using assms
proof (induction "T - k" arbitrary: k sd)
  case 0
  then show ?case by simp
next
  case (Suc n)
  then have kT: "k < T" by linarith
  let ?v = "(demand ! k - supply ! k)\<^sup>2"
  have n: "n = T - Suc k" using Suc.hyps(2) by linarith
  have len: "T \<le> length (sd[k := ?v])" using Suc.prems(3) by simp
  from Suc.hyps(1)[OF n Suc.prems(1,2) len] kT
  obtain sd' where sd': "SD_func_loop_body supply demand [Suc k..<T] (sd[k := ?v]) = Inr sd'"
    "length sd' = length sd"
    "\<forall>i<length sd. sd' ! i = (if Suc k \<le> i \<and> i < T
                    then (demand ! i - supply ! i)\<^sup>2 else sd[k := ?v] ! i)"
    by auto
  have "SD_func_loop_body supply demand [k..<T] sd = Inr sd'"
    using kT Suc.prems sd'(1) by (auto simp: upt_conv_Cons np_max_def)
  moreover have "\<forall>i<length sd. sd' ! i = (if k \<le> i \<and> i < T
                    then (demand ! i - supply ! i)\<^sup>2 else sd ! i)"
  proof (intro allI impI)
    fix i assume i: "i < length sd"
    with sd'(3) have e: "sd' ! i = (if Suc k \<le> i \<and> i < T
                    then (demand ! i - supply ! i)\<^sup>2 else sd[k := ?v] ! i)"
      by blast
    consider "i < k" | "i = k" | "Suc k \<le> i" by linarith
    then show "sd' ! i = (if k \<le> i \<and> i < T
                    then (demand ! i - supply ! i)\<^sup>2 else sd ! i)"
    proof cases
      case 1
      then show ?thesis using e by simp
    next
      case 2
      then show ?thesis using e kT i by simp
    next
      case 3
      then show ?thesis using e by (simp add: nth_list_update)
    qed
  qed
  ultimately show ?case using sd'(2) by blast
qed

lemma SD_func_loop_value:
  assumes "length supply = length demand" "demand \<noteq> []"
  shows "SD_func_loop supply demand
           = Inr (sum_list (map (\<lambda>t. (demand ! t - supply ! t)\<^sup>2) [0..<length demand])
                  / real (length demand))"
proof -
  let ?T = "length demand"
  from SD_func_loop_body_result[of ?T "supply" demand "replicate ?T 0" 0] assms(1)
  obtain sd where sd: "SD_func_loop_body supply demand [0..<?T] (replicate ?T 0) = Inr sd"
    "length sd = ?T" "\<forall>i<?T. sd ! i = (demand ! i - supply ! i)\<^sup>2"
    by auto
  have "sd = map (\<lambda>t. (demand ! t - supply ! t)\<^sup>2) [0..<?T]"
    using sd(2,3) by (intro nth_equalityI) auto
  moreover have "sd \<noteq> []" using sd(2) assms(2) by auto
  ultimately show ?thesis
    using sd(1,2) by (simp add: SD_func_loop_def Let_def bind_res_def np_mean_def)
qed

lemma sum_list_squares_zero:
  fixes f :: "nat \<Rightarrow> real"
  shows "0 \<le> sum_list (map (\<lambda>t. (f t)\<^sup>2) ts)
         \<and> (sum_list (map (\<lambda>t. (f t)\<^sup>2) ts) = 0 \<longleftrightarrow> (\<forall>t\<in>set ts. f t = 0))"
proof (induction ts)
  case Nil
  then show ?case by simp
next
  case (Cons t ts)
  have "0 \<le> (f t)\<^sup>2" by simp
  with Cons show ?case by (auto simp: add_nonneg_eq_0_iff)
qed

lemma SD_func_vec_spec:
  assumes "length supply = length demand" "demand \<noteq> []"
  shows "\<exists>v. SD_func_vec supply demand = Inr v
            \<and> v = sum_list (map (\<lambda>t. (max (demand ! t - supply ! t) 0)\<^sup>2) [0..<length demand])
                  / real (length demand)
            \<and> 0 \<le> v \<and> (v = 0 \<longleftrightarrow> (\<forall>t<length demand. supply ! t \<ge> demand ! t))"
proof -
  let ?T = "length demand"
  let ?f = "\<lambda>t. max (demand ! t - supply ! t) 0"
  let ?S = "sum_list (map (\<lambda>t. (?f t)\<^sup>2) [0..<?T])"
  have m: "map (\<lambda>(d, u). (max (d - u) 0)\<^sup>2) (zip demand supply) = map (\<lambda>t. (?f t)\<^sup>2) [0..<?T]"
    using assms(1) by (intro nth_equalityI) auto
  have ne: "supply \<noteq> []" using assms by auto
  have val: "SD_func_vec supply demand = Inr (?S / real ?T)"
    using assms m ne by (simp add: SD_func_vec_def broadcast2_def bind_res_def np_mean_def)
  have pos: "0 < real ?T" using assms(2) by simp
  from sum_list_squares_zero[of ?f "[0..<?T]"]
  have s0: "0 \<le> ?S" and sz: "?S = 0 \<longleftrightarrow> (\<forall>t<?T. ?f t = 0)" by auto
  have "(\<forall>t<?T. ?f t = 0) \<longleftrightarrow> (\<forall>t<?T. supply ! t \<ge> demand ! t)"
    by (auto simp: max_def split: if_splits)
  with sz pos have "?S / real ?T = 0 \<longleftrightarrow> (\<forall>t<?T. supply ! t \<ge> demand ! t)" by simp
  moreover have "0 \<le> ?S / real ?T" using s0 pos by simp
  ultimately show ?thesis using val by blast
qed

section \<open>Dominance\<close>

lemma broadcast2_swap:
  "broadcast2 xs ys = Inr ps \<Longrightarrow> broadcast2 ys xs = Inr (map (\<lambda>(x, y). (y, x)) ps)"
  by (auto simp: broadcast2_def zip_commute[symmetric] split: if_splits)

lemma dominates_irrefl: "dominates ob ob = Inr False"
  by (auto simp: dominates_def broadcast2_def bind_res_def list_ex_iff set_zip)

lemma dominates_asym:
  assumes "dominates a b = Inr True"
  shows "dominates b a = Inr False"
proof -
  from assms obtain ps where ps: "broadcast2 a b = Inr ps"
    "list_all (\<lambda>(x, y). x \<le> y) ps" "list_ex (\<lambda>(x, y). x < y) ps"
    by (auto simp: dominates_def bind_res_def split: sum.splits)
  from ps(3) obtain x y where xy: "(x, y) \<in> set ps" "x < y" by (auto simp: list_ex_iff)
  then have "\<not> list_all (\<lambda>(x, y). x \<le> y) (map (\<lambda>(x, y). (y, x)) ps)"
    by (auto simp: list_all_iff intro!: bexI[of _ "(x, y)"])
  then show ?thesis using broadcast2_swap[OF ps(1)] by (simp add: dominates_def bind_res_def)
qed

text \<open>
  Claim C8. The dominance relation is irreflexive and asymmetric: no objective vector
  dominates itself, and if \<open>a\<close> dominates \<open>b\<close> then \<open>b\<close> does not dominate
  \<open>a\<close>.
\<close>

theorem dominates_strict:
  "dominates ob ob = Inr False \<and> (dominates a b = Inr True \<longrightarrow> dominates b a = Inr False)"
  using dominates_irrefl dominates_asym by blast

theorem dominates_strict_witness:
  "dominates [3, 5] [3, 5] = Inr False \<and> dominates [1, 2] [2, 2] = Inr True
   \<and> dominates [2, 2] [1, 2] = Inr False"
proof -
  have t: "dominates [1, 2] [2, 2] = Inr True" by code_simp
  from dominates_strict[of "[3, 5]" "[1, 2]" "[2, 2]"] t show ?thesis by simp
qed

section \<open>Ranking: a non-dominated candidate exists\<close>

lemma dominates_total:
  assumes "length a = length b"
  shows "\<exists>d. dominates a b = Inr d"
  using assms by (simp add: dominates_def broadcast2_def bind_res_def)

lemma compare_pair_inv:
  assumes "rank_inv objectives rk" "i < length objectives" "j < length objectives"
    "\<forall>ob\<in>set objectives. length ob = d"
  shows "\<exists>rk'. compare_pair objectives i j rk = Inr rk' \<and> rank_inv objectives rk'"
proof -
  have len: "length (objectives ! i) = length (objectives ! j)"
    using assms(2,3,4) by simp
  obtain d1 where d1: "dominates (objectives ! i) (objectives ! j) = Inr d1"
    using dominates_total[OF len] by blast
  obtain d2 where d2: "dominates (objectives ! j) (objectives ! i) = Inr d2"
    using dominates_total[OF len[symmetric]] by blast
  have L: "i < length (domination_count rk)" "j < length (domination_count rk)"
    "i < length (dominated_solutions rk)" "j < length (dominated_solutions rk)"
    using assms(1,2,3) by (simp_all add: rank_inv_def)
  show ?thesis
  proof (cases d1)
    case True
    let ?rk = "\<lparr>domination_count = (domination_count rk)[j := domination_count rk ! j + 1],
                dominated_solutions = (dominated_solutions rk)[i := dominated_solutions rk ! i @ [j]]\<rparr>"
    have "compare_pair objectives i j rk = Inr ?rk"
      using True d1 L assms(2,3) by (simp add: compare_pair_def bind_res_def)
    moreover have "rank_inv objectives ?rk"
      using assms(1,2,3) d1 True
      by (auto simp: rank_inv_def nth_list_update)
    ultimately show ?thesis by blast
  next
    case False
    note nd1 = False
    show ?thesis
    proof (cases d2)
      case True
      let ?rk = "\<lparr>domination_count = (domination_count rk)[i := domination_count rk ! i + 1],
                  dominated_solutions = (dominated_solutions rk)[j := dominated_solutions rk ! j @ [i]]\<rparr>"
      have "compare_pair objectives i j rk = Inr ?rk"
        using True nd1 d1 d2 L assms(2,3) by (simp add: compare_pair_def bind_res_def)
      moreover have "rank_inv objectives ?rk"
        using assms(1,2,3) d2 True
        by (auto simp: rank_inv_def nth_list_update)
      ultimately show ?thesis by blast
    next
      case False
      then have "compare_pair objectives i j rk = Inr rk"
        using nd1 d1 d2 L assms(2,3) by (simp add: compare_pair_def bind_res_def)
      then show ?thesis using assms(1) by blast
    qed
  qed
qed

lemma inner_loop_inv:
  assumes "rank_inv objectives rk" "i < length objectives" "\<forall>j\<in>set js. j < length objectives"
    "\<forall>ob\<in>set objectives. length ob = d"
  shows "\<exists>rk'. inner_loop objectives i js rk = Inr rk' \<and> rank_inv objectives rk'"
  using assms
proof (induction js arbitrary: rk)
  case Nil
  then show ?case by simp
next
  case (Cons j js)
  from compare_pair_inv[OF Cons.prems(1,2) _ Cons.prems(4), of j] Cons.prems(3)
  obtain rk1 where rk1: "compare_pair objectives i j rk = Inr rk1" "rank_inv objectives rk1"
    by auto
  from Cons.IH[OF rk1(2) Cons.prems(2) _ Cons.prems(4)] Cons.prems(3)
  obtain rk' where "inner_loop objectives i js rk1 = Inr rk'" "rank_inv objectives rk'"
    by auto
  then show ?case using rk1(1) by simp
qed

lemma outer_loop_inv:
  assumes "rank_inv objectives rk" "\<forall>i\<in>set is. i < length objectives"
    "\<forall>ob\<in>set objectives. length ob = d"
  shows "\<exists>rk'. outer_loop objectives is rk = Inr rk' \<and> rank_inv objectives rk'"
  using assms
proof (induction "is" arbitrary: rk)
  case Nil
  then show ?case by simp
next
  case (Cons i "is")
  have "i < length objectives" using Cons.prems(2) by simp
  from inner_loop_inv[OF Cons.prems(1) this _ Cons.prems(3), of "[i + 1..<length objectives]"]
  obtain rk1 where rk1: "inner_loop objectives i [i + 1..<length objectives] rk = Inr rk1"
    "rank_inv objectives rk1"
    by auto
  from Cons.IH[OF rk1(2) _ Cons.prems(3)] Cons.prems(2)
  obtain rk' where "outer_loop objectives is rk1 = Inr rk'" "rank_inv objectives rk'"
    by auto
  then show ?case using rk1(1) by simp
qed

lemma rank_population_inv:
  assumes "\<forall>ob\<in>set objectives. length ob = d"
  shows "\<exists>rk. rank_population objectives = Inr rk \<and> rank_inv objectives rk"
  unfolding rank_population_def
  by (rule outer_loop_inv[OF _ _ assms]) (simp_all add: rank_inv_def)

lemma pairs_sum_less:
  fixes ps :: "(real \<times> real) list"
  assumes "list_all (\<lambda>(a, b). a \<le> b) ps" "list_ex (\<lambda>(a, b). a < b) ps"
  shows "sum_list (map fst ps) < sum_list (map snd ps)"
proof -
  have le: "list_all (\<lambda>(a, b). a \<le> b) qs \<Longrightarrow> sum_list (map fst qs) \<le> sum_list (map snd qs)"
    for qs :: "(real \<times> real) list"
    by (induction qs) (auto simp: add_mono)
  from assms show ?thesis
  proof (induction ps)
    case Nil
    then show ?case by simp
  next
    case (Cons p ps)
    obtain a b where p: "p = (a, b)" by (cases p)
    from Cons.prems(1) p have ab: "a \<le> b" and rest: "list_all (\<lambda>(a, b). a \<le> b) ps" by auto
    show ?case
    proof (cases "a < b")
      case True
      with le[OF rest] p show ?thesis by simp
    next
      case False
      with Cons.prems(2) p have "list_ex (\<lambda>(a, b). a < b) ps" by simp
      from Cons.IH[OF rest this] ab p show ?thesis by simp
    qed
  qed
qed

lemma dominates_sum_less:
  assumes "dominates a b = Inr True" "length a = length b"
  shows "sum_list a < sum_list b"
proof -
  from assms have "list_all (\<lambda>(x, y). x \<le> y) (zip a b)" "list_ex (\<lambda>(x, y). x < y) (zip a b)"
    by (auto simp: dominates_def broadcast2_def bind_res_def)
  from pairs_sum_less[OF this] assms(2) show ?thesis by simp
qed

lemma non_dominated_exists:
  assumes "objectives \<noteq> []" "\<forall>ob\<in>set objectives. length ob = d"
  shows "\<exists>k<length objectives. \<forall>m<length objectives.
           dominates (objectives ! m) (objectives ! k) \<noteq> Inr True"
proof -
  let ?S = "sum_list ` set objectives"
  have fin: "finite ?S" and ne: "?S \<noteq> {}" using assms(1) by auto
  from Min_in[OF fin ne] obtain k where k: "k < length objectives"
    "sum_list (objectives ! k) = Min ?S"
    by (auto simp: in_set_conv_nth)
  have "dominates (objectives ! m) (objectives ! k) \<noteq> Inr True" if "m < length objectives" for m
  proof
    assume dom: "dominates (objectives ! m) (objectives ! k) = Inr True"
    have "length (objectives ! m) = length (objectives ! k)" using assms(2) that k(1) by simp
    from dominates_sum_less[OF dom this] have "sum_list (objectives ! m) < Min ?S"
      using k(2) by simp
    moreover have "Min ?S \<le> sum_list (objectives ! m)"
      using that by (intro Min_le[OF fin]) auto
    ultimately show False by simp
  qed
  with k(1) show ?thesis by blast
qed

text \<open>
  Claim C7. For a non-empty population with its objective vectors (the rows of a
  two-dimensional array), the ranking of \<^verbatim>\<open>parents_selection\<close> gives the domination
  count 0 to at least one candidate, which no candidate dominates, so the lookup of
  \<^verbatim>\<open>parent_1\<close> at the first index with count 0 does not index out of range.
\<close>

theorem front_zero_nonempty:
  assumes "objectives \<noteq> []" "\<forall>ob\<in>set objectives. length ob = d"
    "length objectives \<le> length population"
  shows "\<exists>rk. rank_population objectives = Inr rk
            \<and> length (domination_count rk) = length objectives
            \<and> (\<exists>i<length objectives. domination_count rk ! i = 0
                  \<and> (\<forall>m<length objectives. dominates (objectives ! m) (objectives ! i) \<noteq> Inr True))
            \<and> (\<exists>parent_1. pick_parent (domination_count rk) 0 population = Inr parent_1)"
proof -
  from rank_population_inv[OF assms(2)] obtain rk
    where rk: "rank_population objectives = Inr rk" "rank_inv objectives rk" by blast
  have len: "length (domination_count rk) = length objectives"
    using rk(2) by (simp add: rank_inv_def)
  from non_dominated_exists[OF assms(1,2)] obtain k where k: "k < length objectives"
    "\<forall>m<length objectives. dominates (objectives ! m) (objectives ! k) \<noteq> Inr True" by blast
  then have zero: "domination_count rk ! k = 0" using rk(2) by (simp add: rank_inv_def)
  let ?w = "np_where_eq (domination_count rk) 0"
  have "k \<in> set ?w" using k(1) zero len by (simp add: np_where_eq_def)
  then have ne: "?w \<noteq> []" by auto
  then have "?w ! 0 \<in> set ?w" by simp
  then have "?w ! 0 < length population" using len assms(3) by (simp add: np_where_eq_def)
  then have "pick_parent (domination_count rk) 0 population = Inr (population ! (?w ! 0))"
    using ne by (simp add: pick_parent_def getitem_def bind_res_def)
  with rk(1) len k zero show ?thesis by blast
qed

theorem front_zero_nonempty_witness:
  "\<exists>rk. rank_population [[0, 98], [0, 441 / 2], [0, 49 / 2], [0, 392]] = Inr rk
      \<and> length (domination_count rk) = length [[0, 98], [0, 441 / 2], [0, 49 / 2], [0, 392 :: real]]
      \<and> (\<exists>i<length [[0, 98], [0, 441 / 2], [0, 49 / 2], [0, 392 :: real]].
            domination_count rk ! i = 0
            \<and> (\<forall>m<length [[0, 98], [0, 441 / 2], [0, 49 / 2], [0, 392 :: real]].
                  dominates ([[0, 98], [0, 441 / 2], [0, 49 / 2], [0, 392]] ! m)
                    ([[0, 98], [0, 441 / 2], [0, 49 / 2], [0, 392]] ! i) \<noteq> Inr True))
      \<and> (\<exists>parent_1. pick_parent (domination_count rk) 0 [[1], [2], [3], [4]] = Inr parent_1)"
  using front_zero_nonempty[of "[[0, 98], [0, 441 / 2], [0, 49 / 2], [0, 392]]" 2 "[[1], [2], [3], [4]]"]
  by simp

section \<open>One generation of the optimiser\<close>

lemma pick_parent_in_set:
  assumes "pick_parent counts v population = Inr p"
  shows "p \<in> set population"
  using assms
  by (auto simp: pick_parent_def bind_res_def getitem_def split: sum.splits if_splits)

lemma parents_selection_in_set:
  assumes "parents_selection objectives population = Inr (parent_1, parent_2)"
  shows "parent_1 \<in> set population \<and> parent_2 \<in> set population"
  using assms
  by (auto simp: parents_selection_def bind_res_def split: sum.splits dest: pick_parent_in_set)

lemma crossover_points:
  "nat \<lfloor>real n / 4\<rfloor> = n div 4" "nat \<lfloor>real n / 2\<rfloor> = n div 2"
  "nat \<lfloor>real n * 3 / 4\<rfloor> = (3 * n) div 4"
proof -
  have "\<lfloor>real n / real 4\<rfloor> = int (n div 4)" by (rule floor_divide_of_nat_eq)
  then show "nat \<lfloor>real n / 4\<rfloor> = n div 4" by simp
  have "\<lfloor>real n / real 2\<rfloor> = int (n div 2)" by (rule floor_divide_of_nat_eq)
  then show "nat \<lfloor>real n / 2\<rfloor> = n div 2" by simp
  have "\<lfloor>real (3 * n) / real 4\<rfloor> = int ((3 * n) div 4)" by (rule floor_divide_of_nat_eq)
  moreover have "real (3 * n) / real 4 = real n * 3 / 4" by simp
  ultimately have "\<lfloor>real n * 3 / 4\<rfloor> = int ((3 * n) div 4)" by (simp only:)
  then show "nat \<lfloor>real n * 3 / 4\<rfloor> = (3 * n) div 4" by (simp only: nat_int)
qed

lemma crossover_result:
  assumes "crossover parent_1 parent_2 = Inr population"
  shows "length parent_1 = length parent_2"
    and "population =
      [parent_1, parent_2,
       take (length parent_1 div 4) parent_1 @ drop (length parent_1 div 4) parent_2,
       take (length parent_1 div 4) parent_2 @ drop (length parent_1 div 4) parent_1,
       take (length parent_1 div 2) parent_1 @ drop (length parent_1 div 2) parent_2,
       take (length parent_1 div 2) parent_2 @ drop (length parent_1 div 2) parent_1,
       take (3 * length parent_1 div 4) parent_1 @ drop (3 * length parent_1 div 4) parent_2,
       take (3 * length parent_1 div 4) parent_2 @ drop (3 * length parent_1 div 4) parent_1]"
  using assms
  by (auto simp: crossover_def Let_def crossover_points split: if_splits)

text \<open>
  A run of one generation on the notebook's scenario with four candidates, the constant
  release fractions \<open>1/2\<close>, \<open>1/4\<close>, \<open>3/4\<close> and \<open>0\<close>. The third candidate
  dominates the others and the first is dominated by it alone, so they are the parents.
\<close>

lemma gen_opt_sample_run:
  "gen_opt (notebook_globals 4)
     [[1 / 2, 1 / 2, 1 / 2, 1 / 2, 1 / 2, 1 / 2, 1 / 2, 1 / 2],
      [1 / 4, 1 / 4, 1 / 4, 1 / 4, 1 / 4, 1 / 4, 1 / 4, 1 / 4],
      [3 / 4, 3 / 4, 3 / 4, 3 / 4, 3 / 4, 3 / 4, 3 / 4, 3 / 4],
      [0, 0, 0, 0, 0, 0, 0, 0]]
     1
   = Inr
     ([[3 / 4, 3 / 4, 3 / 4, 3 / 4, 3 / 4, 3 / 4, 3 / 4, 3 / 4],
      [1 / 2, 1 / 2, 1 / 2, 1 / 2, 1 / 2, 1 / 2, 1 / 2, 1 / 2],
      [3 / 4, 3 / 4, 1 / 2, 1 / 2, 1 / 2, 1 / 2, 1 / 2, 1 / 2],
      [1 / 2, 1 / 2, 3 / 4, 3 / 4, 3 / 4, 3 / 4, 3 / 4, 3 / 4],
      [3 / 4, 3 / 4, 3 / 4, 3 / 4, 1 / 2, 1 / 2, 1 / 2, 1 / 2],
      [1 / 2, 1 / 2, 1 / 2, 1 / 2, 3 / 4, 3 / 4, 3 / 4, 3 / 4],
      [3 / 4, 3 / 4, 3 / 4, 3 / 4, 3 / 4, 3 / 4, 1 / 2, 1 / 2],
      [1 / 2, 1 / 2, 1 / 2, 1 / 2, 1 / 2, 1 / 2, 3 / 4, 3 / 4]],
      [[0, 98], [0, 441 / 2], [0, 49 / 2], [0, 392]])"
  by code_simp

text \<open>
  \<^verbatim>\<open>gen_opt\<close> of the draft notebook has no crossover or mutation probability: every
  generation replaces the population by the output of \<^verbatim>\<open>crossover\<close>. When one
  generation returns, the population it returns is the crossover of the two parents that
  \<^verbatim>\<open>parents_selection\<close> picks on the objectives of the initial population: 8 rows, the
  first two being the parents, rows of the initial population with their gene values
  unchanged.
\<close>

lemma gen_opt_result:
  assumes "gen_opt g initial_population 1 = Inr (population, objectives)"
  shows "fit_func g (g_pop_size g) initial_population = Inr objectives
         \<and> (\<exists>parent_1 parent_2.
               parents_selection objectives initial_population = Inr (parent_1, parent_2)
               \<and> crossover parent_1 parent_2 = Inr population
               \<and> population ! 0 = parent_1 \<and> population ! 1 = parent_2
               \<and> parent_1 \<in> set initial_population \<and> parent_2 \<in> set initial_population)
         \<and> length population = 8"
proof -
  from assms obtain parent_1 parent_2
    where fit: "fit_func g (g_pop_size g) initial_population = Inr objectives"
      and ps: "parents_selection objectives initial_population = Inr (parent_1, parent_2)"
      and cr: "crossover parent_1 parent_2 = Inr population"
    by (auto simp: gen_opt_def split: sum.splits prod.splits option.splits)
  from crossover_result[OF cr] have len: "length population = 8"
    and p0: "population ! 0 = parent_1" and p1: "population ! 1 = parent_2"
    by simp_all
  from parents_selection_in_set[OF ps] fit ps cr len p0 p1 show ?thesis by blast
qed

section \<open>The optimiser with probabilities: variation switched off\<close>






section \<open>The fronts hold every candidate once\<close>























section \<open>One generation without variation\<close>




text \<open>
  A run by hand. The four candidates release 2, 4, 1 and 3 of the demand of 4, with no
  storage violation, so the objectives are \<open>(0, 4)\<close>, \<open>(0, 0)\<close>, \<open>(0, 9)\<close> and
  \<open>(0, 1)\<close>, each candidate is a front of its own, in the order 1, 3, 0, 2, and
  \<^verbatim>\<open>best_index\<close> is 1. Crossover draws 2 numbers and mutation 4. The second run is on
  the data of the notebook.
\<close>

lemma one_week_objectives:
  "fit_func one_week 4 four_candidates = Inr [[0, 4], [0, 0], [0, 9], [0, 1]]"
  by code_simp

lemma one_week_fronts:
  "non_dominated_sort [[0, 4], [0, 0], [0, 9], [0, 1]] = Inr [[1], [3], [0], [2]]"
  by code_simp



lemma notebook_run:
  "generation (notebook_globals 4) 0 0 argsort_stable half_stream
     ([[1 / 2, 1 / 2, 1 / 2, 1 / 2, 1 / 2, 1 / 2, 1 / 2, 1 / 2],
       [1 / 4, 1 / 4, 1 / 4, 1 / 4, 1 / 4, 1 / 4, 1 / 4, 1 / 4],
       [3 / 4, 3 / 4, 3 / 4, 3 / 4, 3 / 4, 3 / 4, 3 / 4, 3 / 4],
       [0, 0, 0, 0, 0, 0, 0, 0]], 0, [], [])
   = Inr ([[3 / 4, 3 / 4, 3 / 4, 3 / 4, 3 / 4, 3 / 4, 3 / 4, 3 / 4],
           [1 / 2, 1 / 2, 1 / 2, 1 / 2, 1 / 2, 1 / 2, 1 / 2, 1 / 2],
           [1 / 4, 1 / 4, 1 / 4, 1 / 4, 1 / 4, 1 / 4, 1 / 4, 1 / 4],
           [0, 0, 0, 0, 0, 0, 0, 0]],
          34, [[1 / 4, 1 / 4, 1 / 4, 1 / 4, 1 / 4, 1 / 4, 1 / 4, 1 / 4]], [[0, 49 / 2]])"
  by code_simp




section \<open>The simulator on the store refines the simulator on lists\<close>

lemma rd_put:
  assumes "separate rs"
  shows "rd (put h rs st) (s_ref rs) i = s_arr st ! i"
    "rd (put h rs st) (env_ref rs) i = env_arr st ! i"
    "rd (put h rs st) (spill_ref rs) i = spill_arr st ! i"
    "rd (put h rs st) (supply_ref rs) i = supply_arr st ! i"
    "rd (put h rs st) (inflow_ref rs) i = cells h (inflow_ref rs) ! i"
    "rd (put h rs st) (evap_ref rs) i = cells h (evap_ref rs) ! i"
  using assms by (auto simp: separate_def rd_def put_def)

lemma cells_put:
  assumes "separate rs"
  shows "cells (put h rs st) (s_ref rs) = s_arr st"
    "cells (put h rs st) (env_ref rs) = env_arr st"
    "cells (put h rs st) (spill_ref rs) = spill_arr st"
    "cells (put h rs st) (supply_ref rs) = supply_arr st"
    "cells (put h rs st) (inflow_ref rs) = cells h (inflow_ref rs)"
    "cells (put h rs st) (evap_ref rs) = cells h (evap_ref rs)"
  using assms by (auto simp: separate_def put_def)

lemma wr_put:
  assumes "separate rs"
  shows "wr (put h rs st) (s_ref rs) i v = put h rs (st\<lparr>s_arr := (s_arr st)[i := v]\<rparr>)"
    "wr (put h rs st) (env_ref rs) i v = put h rs (st\<lparr>env_arr := (env_arr st)[i := v]\<rparr>)"
    "wr (put h rs st) (spill_ref rs) i v = put h rs (st\<lparr>spill_arr := (spill_arr st)[i := v]\<rparr>)"
    "wr (put h rs st) (supply_ref rs) i v = put h rs (st\<lparr>supply_arr := (supply_arr st)[i := v]\<rparr>)"
  using assms by (auto simp: separate_def wr_def put_def fun_upd_twist)

lemma if_put: "(if c then put h rs st1 else put h rs st2) = put h rs (if c then st1 else st2)"
  by simp


lemma res_sim_step_store_put:
  assumes sep: "separate rs"
    and guard: "t < length (cells h (inflow_ref rs))" "t < length (cells h (evap_ref rs))"
      "t < length (supply_arr st)" "t + 1 < length (s_arr st)" "t < length (env_arr st)"
      "t < length (spill_arr st)"
  shows "\<exists>st'. res_sim_step (cells h (inflow_ref rs)) (cells h (evap_ref rs)) s_max t st = Inr st'
            \<and> res_sim_step_store rs s_max t (put h rs st) = Inr (put h rs st')"
proof -
  define I where "I = cells h (inflow_ref rs)"
  define E where "E = cells h (evap_ref rs)"
  define S where "S = s_arr st"
  define E1 where "E1 = (if S ! t + I ! t - E ! t \<le> 0 then (env_arr st)[t := 0] else env_arr st)"
  define E2 where "E2 = (if E1 ! t \<ge> S ! t + I ! t - E ! t
                          then E1[t := S ! t + I ! t - E ! t] else E1)"
  define U1 where "U1 = (if S ! t + I ! t - E ! t - E2 ! t \<le> 0
                          then (supply_arr st)[t := 0] else supply_arr st)"
  define U2 where "U2 = (if U1 ! t \<ge> S ! t + I ! t - E ! t - E2 ! t
                          then U1[t := S ! t + I ! t - E ! t - E2 ! t] else U1)"
  define P1 where "P1 = (if S ! t + I ! t - E ! t - E2 ! t - U2 ! t > s_max
                          then (spill_arr st)[t := S ! t + I ! t - E ! t - E2 ! t - U2 ! t - s_max]
                          else spill_arr st)"
  define S1 where "S1 = S[t + 1 := S ! t + I ! t - E ! t - E2 ! t - P1 ! t - U2 ! t]"
  define h0 where "h0 = put h rs st"
  define st1 where "st1 = st\<lparr>env_arr := E1\<rparr>"
  define st2 where "st2 = st\<lparr>env_arr := E2\<rparr>"
  define st3 where "st3 = st2\<lparr>supply_arr := U1\<rparr>"
  define st4 where "st4 = st2\<lparr>supply_arr := U2\<rparr>"
  define st5 where "st5 = st4\<lparr>spill_arr := P1\<rparr>"
  define st6 where "st6 = st5\<lparr>s_arr := S1\<rparr>"
  note rw = rd_put[OF sep] wr_put[OF sep]
  have pure: "res_sim_step I E s_max t st = Inr st6"
    using guard
    unfolding res_sim_step_def st6_def st5_def st4_def st2_def S1_def P1_def U2_def U1_def E2_def
      E1_def S_def Let_def I_def E_def
    by (simp split del: if_split)
  have eq1: "(if rd h0 (s_ref rs) t + rd h0 (inflow_ref rs) t - rd h0 (evap_ref rs) t \<le> 0
              then wr h0 (env_ref rs) t 0 else h0) = put h rs st1"
    by (simp add: h0_def rw st1_def E1_def S_def I_def E_def)
  have eq2: "(if rd (put h rs st1) (env_ref rs) t
                  \<ge> rd (put h rs st1) (s_ref rs) t + rd (put h rs st1) (inflow_ref rs) t
                     - rd (put h rs st1) (evap_ref rs) t
              then wr (put h rs st1) (env_ref rs) t
                     (rd (put h rs st1) (s_ref rs) t + rd (put h rs st1) (inflow_ref rs) t
                      - rd (put h rs st1) (evap_ref rs) t)
              else put h rs st1) = put h rs st2"
    by (simp add: rw st1_def st2_def E2_def S_def I_def E_def)
  have eq3: "(if rd (put h rs st2) (s_ref rs) t + rd (put h rs st2) (inflow_ref rs) t
                  - rd (put h rs st2) (evap_ref rs) t - rd (put h rs st2) (env_ref rs) t \<le> 0
              then wr (put h rs st2) (supply_ref rs) t 0 else put h rs st2) = put h rs st3"
    by (simp add: rw st2_def st3_def U1_def S_def I_def E_def)
  have eq4: "(if rd (put h rs st3) (supply_ref rs) t
                  \<ge> rd (put h rs st3) (s_ref rs) t + rd (put h rs st3) (inflow_ref rs) t
                     - rd (put h rs st3) (evap_ref rs) t - rd (put h rs st3) (env_ref rs) t
              then wr (put h rs st3) (supply_ref rs) t
                     (rd (put h rs st3) (s_ref rs) t + rd (put h rs st3) (inflow_ref rs) t
                      - rd (put h rs st3) (evap_ref rs) t - rd (put h rs st3) (env_ref rs) t)
              else put h rs st3) = put h rs st4"
    by (simp add: rw st2_def st3_def st4_def U2_def S_def I_def E_def)
  have eq5: "(if rd (put h rs st4) (s_ref rs) t + rd (put h rs st4) (inflow_ref rs) t
                  - rd (put h rs st4) (evap_ref rs) t - rd (put h rs st4) (env_ref rs) t
                  - rd (put h rs st4) (supply_ref rs) t > s_max
              then wr (put h rs st4) (spill_ref rs) t
                     (rd (put h rs st4) (s_ref rs) t + rd (put h rs st4) (inflow_ref rs) t
                      - rd (put h rs st4) (evap_ref rs) t - rd (put h rs st4) (env_ref rs) t
                      - rd (put h rs st4) (supply_ref rs) t - s_max)
              else put h rs st4) = put h rs st5"
    by (simp add: rw st2_def st4_def st5_def P1_def S_def I_def E_def)
  have eq6: "wr (put h rs st5) (s_ref rs) (t + 1)
               (rd (put h rs st5) (s_ref rs) t + rd (put h rs st5) (inflow_ref rs) t
                - rd (put h rs st5) (evap_ref rs) t - rd (put h rs st5) (env_ref rs) t
                - rd (put h rs st5) (spill_ref rs) t - rd (put h rs st5) (supply_ref rs) t)
             = put h rs st6"
    by (simp add: rw st2_def st4_def st5_def st6_def S1_def S_def I_def E_def)
  have g: "\<not> \<not> (t < length (cells h0 (inflow_ref rs)) \<and> t < length (cells h0 (evap_ref rs))
                 \<and> t < length (cells h0 (supply_ref rs)) \<and> t + 1 < length (cells h0 (s_ref rs))
                 \<and> t < length (cells h0 (env_ref rs)) \<and> t < length (cells h0 (spill_ref rs)))"
    using guard by (simp add: h0_def cells_put[OF sep])
  have "res_sim_step_store rs s_max t h0 = Inr (put h rs st6)"
    unfolding res_sim_step_store_def Let_def
    by (simp only: g if_False eq1 eq2 eq3 eq4 eq5 eq6)
  with pure show ?thesis unfolding h0_def I_def E_def by blast
qed


lemma res_sim_loop_store_put:
  assumes "separate rs"
    and "res_sim_loop (cells h (inflow_ref rs)) (cells h (evap_ref rs)) s_max ts st = Inr st'"
  shows "res_sim_loop_store rs s_max ts (put h rs st) = Inr (put h rs st')"
  using assms(2)
proof (induction ts arbitrary: st)
  case Nil
  then show ?case by simp
next
  case (Cons t ts)
  from Cons.prems obtain st1
    where s1: "res_sim_step (cells h (inflow_ref rs)) (cells h (evap_ref rs)) s_max t st = Inr st1"
      and l1: "res_sim_loop (cells h (inflow_ref rs)) (cells h (evap_ref rs)) s_max ts st1 = Inr st'"
    by (auto split: sum.splits)
  from s1 have guard: "t < length (cells h (inflow_ref rs))" "t < length (cells h (evap_ref rs))"
      "t < length (supply_arr st)" "t + 1 < length (s_arr st)" "t < length (env_arr st)"
      "t < length (spill_arr st)"
    by (auto simp: res_sim_step_def split: if_splits)
  from res_sim_step_store_put[OF assms(1) guard, of s_max] s1
  have "res_sim_step_store rs s_max t (put h rs st) = Inr (put h rs st1)" by auto
  with Cons.IH[OF l1] show ?case by simp
qed

lemma res_sim_store_refines:
  assumes "inflow < fresh h" "evap < fresh h" "supply < fresh h"
    and "supply \<noteq> inflow" "supply \<noteq> evap"
    and "res_sim (cells h inflow) (cells h evap) demand_values s_0 s_max env_min (cells h supply) = Inr r"
  shows "\<exists>h' s env spill.
           res_sim_store h inflow evap demand s_0 s_max env_min supply = Inr (h', s, env, spill, supply)
           \<and> cells h' supply = supply_arr r \<and> cells h' s = s_arr r
           \<and> cells h' env = env_arr r \<and> cells h' spill = spill_arr r
           \<and> (\<forall>p. p < fresh h \<and> p \<noteq> supply \<longrightarrow> cells h' p = cells h p)"
proof -
  define T where "T = length (cells h inflow)"
  define rs where "rs = \<lparr>inflow_ref = inflow, evap_ref = evap, s_ref = fresh h,
                            env_ref = fresh h + 2, spill_ref = fresh h + 1, supply_ref = supply\<rparr>"
  define st0 where "st0 = \<lparr>s_arr = (replicate (T + 1) 0)[0 := s_0],
                             env_arr = map (\<lambda>z. z + env_min) (replicate T 0),
                             spill_arr = replicate T 0, supply_arr = cells h supply\<rparr>"
  define hb where "hb = h\<lparr>fresh := fresh h + 3\<rparr>"
  have sep: "separate rs" using assms(1-5) by (auto simp: separate_def rs_def)
  have pure: "res_sim_loop (cells hb (inflow_ref rs)) (cells hb (evap_ref rs)) s_max [0..<T] st0 = Inr r"
    using assms(6) by (simp add: res_sim_def Let_def T_def st0_def hb_def rs_def)
  have loop: "res_sim_loop_store rs s_max [0..<T] (put hb rs st0) = Inr (put hb rs r)"
    by (rule res_sim_loop_store_put[OF sep pure])
  have init: "wr (snd (alloc (map (\<lambda>z. z + env_min) (replicate T 0))
                        (snd (alloc (replicate T 0) (snd (alloc (replicate (T + 1) 0) h))))))
                 (fresh h) 0 s_0 = put hb rs st0"
    using assms(1-3)
    by (auto simp: alloc_def wr_def put_def hb_def rs_def st0_def fun_eq_iff)
  have "res_sim_store h inflow evap demand s_0 s_max env_min supply
          = Inr (put hb rs r, fresh h, fresh h + 2, fresh h + 1, supply)"
    using loop init
    by (simp add: res_sim_store_def Let_def T_def[symmetric] alloc_def rs_def split_def)
  moreover have "cells (put hb rs r) supply = supply_arr r" "cells (put hb rs r) (fresh h) = s_arr r"
    "cells (put hb rs r) (fresh h + 2) = env_arr r" "cells (put hb rs r) (fresh h + 1) = spill_arr r"
    using cells_put[OF sep, of hb r] by (simp_all add: rs_def)
  moreover have "\<forall>p. p < fresh h \<and> p \<noteq> supply \<longrightarrow> cells (put hb rs r) p = cells h p"
    by (auto simp: put_def rs_def hb_def)
  ultimately show ?thesis by blast
qed

text \<open>Whatever the arrays are, a call that returns hands back the reference it was given.\<close>

lemma res_sim_store_returns_argument:
  assumes "res_sim_store h inflow evap demand s_0 s_max env_min supply = Inr (h', s, env, spill, p)"
  shows "p = supply"
  using assms by (auto simp: res_sim_store_def Let_def split_def split: sum.splits)

text \<open>
  Two calls that differ only in the candidate supply, 6 or 7 units against 5 available:
  both leave \<open>[5]\<close> in the caller's array.
\<close>

lemma res_sim_store_examples:
  "map_sum id (\<lambda>(h', rs). (cells h' 2, rs)) (res_sim_store (store_of [[0], [0], [6]]) 0 1 1 5 10 0 2)
     = Inr ([5], 3, 5, 4, 2)"
  "map_sum id (\<lambda>(h', rs). (cells h' 2, rs)) (res_sim_store (store_of [[0], [0], [7]]) 0 1 1 5 10 0 2)
     = Inr ([5], 3, 5, 4, 2)"
  by code_simp+

text \<open>
  Claim C10. \<^verbatim>\<open>res_sim\<close> mutates its supply argument in place. When the supply array
  is an object of its own (not also passed as inflow or evaporation), then after the call
  the array passed as candidate supply holds the realised supply values of the run, and the
  reference returned as supply output is the one that was passed. The candidate values
  are not recoverable in general: candidates 6 and 7 leave the same array \<open>[5]\<close>.
\<close>

theorem res_sim_store_in_place:
  assumes "inflow < fresh h" "evap < fresh h" "supply < fresh h"
    and "supply \<noteq> inflow" "supply \<noteq> evap"
    and "res_sim (cells h inflow) (cells h evap) (cells h demand) s_0 s_max env_min
           (cells h supply) = Inr r"
  shows "(\<exists>h' s env spill.
            res_sim_store h inflow evap demand s_0 s_max env_min supply
              = Inr (h', s, env, spill, supply)
            \<and> cells h' supply = supply_arr r)
         \<and> map_sum id (\<lambda>(h', rs). (cells h' 2, rs))
               (res_sim_store (store_of [[0], [0], [6]]) 0 1 1 5 10 0 2) = Inr ([5], 3, 5, 4, 2)
         \<and> map_sum id (\<lambda>(h', rs). (cells h' 2, rs))
               (res_sim_store (store_of [[0], [0], [7]]) 0 1 1 5 10 0 2) = Inr ([5], 3, 5, 4, 2)"
proof -
  from res_sim_store_refines[OF assms]
  have "\<exists>h' s env spill.
            res_sim_store h inflow evap demand s_0 s_max env_min supply
              = Inr (h', s, env, spill, supply)
            \<and> cells h' supply = supply_arr r"
    by blast
  with res_sim_store_examples show ?thesis by blast
qed

theorem res_sim_store_in_place_witness:
  "(\<exists>h' s env spill.
      res_sim_store (store_of [[0], [0], [6]]) 0 1 1 5 10 0 2 = Inr (h', s, env, spill, 2)
      \<and> cells h' 2 = [5])
   \<and> map_sum id (\<lambda>(h', rs). (cells h' 2, rs))
         (res_sim_store (store_of [[0], [0], [6]]) 0 1 1 5 10 0 2) = Inr ([5], 3, 5, 4, 2)
   \<and> map_sum id (\<lambda>(h', rs). (cells h' 2, rs))
         (res_sim_store (store_of [[0], [0], [7]]) 0 1 1 5 10 0 2) = Inr ([5], 3, 5, 4, 2)"
proof -
  have run: "res_sim (cells (store_of [[0], [0], [6]]) 0) (cells (store_of [[0], [0], [6]]) 1)
               (cells (store_of [[0], [0], [6]]) 1) 5 10 0 (cells (store_of [[0], [0], [6]]) 2)
             = Inr \<lparr>s_arr = [5, 0], env_arr = [0], spill_arr = [0], supply_arr = [5]\<rparr>"
    by (simp add: store_of_def res_sim_def res_sim_step_def Let_def)
  have refs: "(0::nat) < fresh (store_of [[0], [0], [6]])" "(1::nat) < fresh (store_of [[0], [0], [6]])"
    "(2::nat) < fresh (store_of [[0], [0], [6]])" "(2::nat) \<noteq> 0" "(2::nat) \<noteq> 1"
    by (simp_all add: store_of_def)
  from res_sim_store_in_place[OF refs run] show ?thesis by simp
qed

end
